(* ===== verification/Mpconn_Prelude.thy ===== *)
theory Mpconn_Prelude
  imports Main "HOL-Library.Word"
begin

text \<open>
  Shared vocabulary of the development: the machine integers of the Rust sources, the wall clock
  (\<open>std::time::SystemTime\<close>, \<open>std::time::Duration\<close>), addresses (\<open>std::net\<close>), panics as values,
  the \<open>outcome\<close> of a stateful handler, and the collections of facts the component theories
  add to.

  Arithmetic on \<open>u64\<close> is that of the release profile, the one every build script of the
  repository uses: \<open>+=\<close> wraps around at \<open>2^64\<close>.
\<close>

section \<open>Collections of facts\<close>

named_theorems mpconn_defs \<open>definitions that symbolic evaluation of an operation unfolds\<close>
named_theorems mpconn_inv \<open>invariants that an operation keeps\<close>
named_theorems mpconn_frame \<open>parts of the state that an operation leaves alone\<close>

section \<open>Machine integers, addresses\<close>

type_synonym u8 = "8 word"
type_synonym u16 = "16 word"
type_synonym u32 = "32 word"
type_synonym u64 = "64 word"
type_synonym byte_vec = "u8 list"

abbreviation u64_max :: u64 where
  "u64_max \<equiv> - 1"

text \<open>\<open>std::net::IpAddr\<close> and \<open>std::net::SocketAddr\<close>; a V6 socket address carries its flow
  information and scope besides address and port.\<close>

type_synonym ipv4_addr = "32 word"

datatype ip_addr = V4 ipv4_addr | V6 "128 word"

datatype socket_addr =
    SocketV4 ipv4_addr u16
  | SocketV6 "128 word" u16 u32 u32

section \<open>The wall clock\<close>

text \<open>
  \<open>SystemTime\<close> counts nanoseconds relative to the Unix epoch and is not monotone: the operating
  system may step it backwards, so that \<open>duration_since\<close> returns an error. A \<open>Duration\<close> is a
  (non-negative) number of nanoseconds. Every reading of the clock is an argument of the operation that makes it.
\<close>

type_synonym system_time = int
type_synonym duration = int

definition from_millis :: "int \<Rightarrow> duration" where
  "from_millis n = n * 1000000"

definition from_secs :: "int \<Rightarrow> duration" where
  "from_secs n = n * 1000000000"

definition duration_since :: "system_time \<Rightarrow> system_time \<Rightarrow> duration option" where
  "duration_since now earlier = (if earlier \<le> now then Some (now - earlier) else None)"

lemma duration_since_eq_None_iff [simp]:
  "duration_since now earlier = None \<longleftrightarrow> now < earlier"
  by (auto simp: duration_since_def)

lemma duration_since_forward:
  "earlier \<le> now \<Longrightarrow> duration_since now earlier = Some (now - earlier)"
  by (simp add: duration_since_def)

text \<open>A sequence of readings after its first.\<close>

definition later :: "(nat \<Rightarrow> 'a) \<Rightarrow> nat \<Rightarrow> 'a" where
  "later ts i = ts (Suc i)"

section \<open>Panics and outcomes\<close>

text \<open>
  A panic is a value. \<open>Unwrap_None\<close> and \<open>Unwrap_Err\<close> are the \<open>unwrap\<close> of an
  \<open>Option\<close> or a \<open>Result\<close>, \<open>Explicit_Panic\<close> is a \<open>panic!\<close>, \<open>Todo\<close> a \<open>todo!\<close>; the string
  names the expression that panicked.
\<close>

datatype panic = Unwrap_None string | Unwrap_Err string | Explicit_Panic string | Todo string

definition unwrap :: "string \<Rightarrow> 'a option \<Rightarrow> panic + 'a" where
  "unwrap what x = (case x of None \<Rightarrow> Inl (Unwrap_None what) | Some v \<Rightarrow> Inr v)"

lemma unwrap_simps [simp]:
  "unwrap what None = Inl (Unwrap_None what)"
  "unwrap what (Some v) = Inr v"
  by (simp_all add: unwrap_def)

text \<open>
  A handler that changes state ends in a state: it either goes on running or has panicked, and
  what it did before the panic (messages it has sent) stays done.
\<close>

datatype 's outcome = Running 's | Panicked panic 's

primrec and_then :: "'s outcome \<Rightarrow> ('s \<Rightarrow> 't outcome) \<Rightarrow> ('s \<Rightarrow> 't) \<Rightarrow> 't outcome" where
  "and_then (Running s) f g = f s"
| "and_then (Panicked p s) f g = Panicked p (g s)"

abbreviation chain :: "'s outcome \<Rightarrow> ('s \<Rightarrow> 's outcome) \<Rightarrow> 's outcome" where
  "chain r f \<equiv> and_then r f id"

primrec final :: "'s outcome \<Rightarrow> 's" where
  "final (Running s) = s"
| "final (Panicked p s) = s"

primrec is_running :: "'s outcome \<Rightarrow> bool" where
  "is_running (Running s) = True"
| "is_running (Panicked p s) = False"

text \<open>A \<open>for\<close> loop whose body may panic: the first panic ends it.\<close>

fun for_each :: "('a \<Rightarrow> 's \<Rightarrow> 's outcome) \<Rightarrow> 'a list \<Rightarrow> 's \<Rightarrow> 's outcome" where
  "for_each body [] s = Running s"
| "for_each body (x # xs) s = chain (body x s) (for_each body xs)"

lemma for_each_append:
  "for_each body (xs @ ys) s = chain (for_each body xs s) (for_each body ys)"
proof (induction xs arbitrary: s)
  case Nil
  then show ?case by simp
next
  case (Cons x xs)
  then show ?case by (cases "body x s") simp_all
qed

lemma final_and_then_keeps:
  assumes "P (final r)" and "\<And>s. P s \<Longrightarrow> P (final (f s))"
  shows "P (final (chain r f))"
  using assms by (cases r) simp_all

text \<open>The loop rule: what every iteration keeps, the whole loop keeps, also when it panics.\<close>

lemma for_each_keeps:
  assumes "P s" and "\<And>x s. x \<in> set xs \<Longrightarrow> P s \<Longrightarrow> P (final (body x s))"
  shows "P (final (for_each body xs s))"
  using assms
proof (induction xs arbitrary: s)
  case Nil
  then show ?case by simp
next
  case (Cons x xs)
  then have step: "P (final (body x s))" by simp
  show ?case
  proof (cases "body x s")
    case (Running s')
    with step Cons show ?thesis by simp
  next
    case (Panicked p s')
    with step show ?thesis by simp
  qed
qed

lemma for_each_running:
  assumes "P s" and "\<And>x s. x \<in> set xs \<Longrightarrow> P s \<Longrightarrow> is_running (body x s) \<and> P (final (body x s))"
  shows "is_running (for_each body xs s)"
  using assms
proof (induction xs arbitrary: s)
  case Nil
  then show ?case by simp
next
  case (Cons x xs)
  then have "is_running (body x s)" and "P (final (body x s))" by simp_all
  with Cons show ?case by (cases "body x s") simp_all
qed

text \<open>Which panics an outcome may be.\<close>

primrec only_panics :: "(panic \<Rightarrow> bool) \<Rightarrow> 's outcome \<Rightarrow> bool" where
  "only_panics Q (Running s) = True"
| "only_panics Q (Panicked p s) = Q p"

lemma only_panics_and_then:
  assumes "only_panics Q r" and "\<And>s. r = Running s \<Longrightarrow> only_panics Q (f s)"
  shows "only_panics Q (and_then r f g)"
  using assms by (cases r) simp_all

lemma for_each_only_panics:
  assumes "P s"
    and "\<And>x s. x \<in> set xs \<Longrightarrow> P s \<Longrightarrow> only_panics Q (body x s) \<and> P (final (body x s))"
  shows "only_panics Q (for_each body xs s)"
  using assms
proof (induction xs arbitrary: s)
  case (Cons x xs)
  then have "only_panics Q (body x s)" and "P (final (body x s))" by simp_all
  with Cons show ?case by (cases "body x s") simp_all
qed simp

lemma for_each_Running_foldl:
  assumes "\<And>x s. x \<in> set xs \<Longrightarrow> body x s = Running (f x s)"
  shows "for_each body xs s = Running (fold f xs s)"
  using assms by (induction xs arbitrary: s) simp_all

section \<open>Tasks\<close>

text \<open>\<open>for task in &mut tasks { task.await.unwrap() }\<close>: tasks are awaited one after the other, and a
  task that panicked makes the waiting task panic when its turn comes.\<close>

datatype task_state = Task_Running | Task_Finished | Task_Panicked

datatype joined = Join_Waiting | Join_Done | Join_Panicked

fun await_tasks :: "task_state list \<Rightarrow> joined" where
  "await_tasks [] = Join_Done"
| "await_tasks (Task_Finished # ts) = await_tasks ts"
| "await_tasks (Task_Running # ts) = Join_Waiting"
| "await_tasks (Task_Panicked # ts) = Join_Panicked"

section \<open>Transition systems\<close>

inductive reachable :: "('s \<Rightarrow> bool) \<Rightarrow> ('s \<Rightarrow> 's \<Rightarrow> bool) \<Rightarrow> 's \<Rightarrow> bool" for init step where
  start: "init s \<Longrightarrow> reachable init step s"
| next_state: "reachable init step s \<Longrightarrow> step s s' \<Longrightarrow> reachable init step s'"

text \<open>The contract of an inductive invariant, and what it gives for all reachable states.\<close>

locale invariant_system =
  fixes init :: "'s \<Rightarrow> bool"
    and step :: "'s \<Rightarrow> 's \<Rightarrow> bool"
    and inv :: "'s \<Rightarrow> bool"
  assumes init_inv: "init s \<Longrightarrow> inv s"
    and step_inv: "inv s \<Longrightarrow> step s s' \<Longrightarrow> inv s'"
begin

lemma reachable_inv: "reachable init step s \<Longrightarrow> inv s"
  by (induction rule: reachable.induct) (auto intro: init_inv step_inv)

end

section \<open>Words\<close>

text \<open>Sequence numbers are compared and incremented as \<open>u64\<close>; away from the top value the
  increment is the successor.\<close>

lemma unat_succ_u64:
  fixes x :: u64
  assumes "x \<noteq> u64_max"
  shows "unat (x + 1) = Suc (unat x)"
  using assms by (metis add.commute add_eq_0_iff unatSuc)

lemma unat_u64_bound: "unat (x :: u64) < 2 ^ 64"
  using unsigned_less [of x] by simp

lemma u64_eq_max_iff: "x = u64_max \<longleftrightarrow> unat x = 2 ^ 64 - 1"
proof -
  have "u64_max = 18446744073709551615" by simp
  then have "unat u64_max = 2 ^ 64 - 1" by (simp only:) simp
  then show ?thesis by (simp only: word_unat_eq_iff)
qed

lemma unat_of_nat_u64: "n < 2 ^ 64 \<Longrightarrow> unat (of_nat n :: u64) = n"
  by (simp add: unat_of_nat take_bit_nat_eq_self)

lemma unat_add_u64:
  assumes "unat x + unat y < 2 ^ 64"
  shows "unat (x + y :: u64) = unat x + unat y"
  using assms by (simp add: unat_word_ariths)

lemma u64_le_max [simp]: "(x :: u64) \<le> u64_max"
  by simp

lemma u64_lt_succ:
  fixes x :: u64
  assumes "x \<noteq> u64_max"
  shows "x < x + 1"
  using unat_succ_u64 [OF assms] by (simp add: word_less_nat_alt)

lemma u64_Suc_le:
  fixes x y :: u64
  assumes "x < y"
  shows "x + 1 \<le> y"
  using assms by (simp add: inc_le)

section \<open>Lists\<close>

lemma sorted_wrt_less_hd_least:
  "sorted_wrt (<) (map fst (e # es)) \<Longrightarrow> e' \<in> set (e # es) \<Longrightarrow> fst e \<le> (fst e' :: 'a :: linorder)"
  by auto

lemma strict_sorted_distinct:
  "sorted_wrt (<) (xs :: 'a :: linorder list) \<Longrightarrow> distinct xs"
  by (induction xs) auto

end
