(* ===== verification/Messages.thy ===== *)
theory Messages
  imports Mpconn_Prelude
begin

text \<open>
  The data that travels: the wire messages of \<open>messages.rs\<close>, the messages between tasks of
  \<open>internal_messages.rs\<close> and the configuration of \<open>settings.rs\<close>. Fields whose name two
  structs share carry a prefix here.
\<close>

section \<open>Wire messages\<close>

record packet =
  seq :: u64
  peer_id :: u16
  bytes :: byte_vec

record keepalive =
  ka_peer_id :: u16
  ka_tun_ip :: "ipv4_addr option"

datatype messages = Packet_Msg packet | Keepalive_Msg keepalive

section \<open>Messages between tasks\<close>

text \<open>A received tunnel packet after and before it is deserialized, and a serialized one on its way
  out.\<close>

record incoming_packet =
  ip_receiver_interface :: string
  ip_received_from :: socket_addr
  ip_packet :: packet

record incoming_unparsed_packet =
  receiver_interface :: string
  received_from :: socket_addr
  raw_bytes :: byte_vec

record outgoing_udp_packet =
  destination :: socket_addr
  packet_bytes :: byte_vec

section \<open>Settings\<close>

datatype local_types =
    Layer2_Local string \<comment> \<open>\<open>network_interface\<close>\<close>
  | Layer3_Local ipv4_addr \<comment> \<open>\<open>tun_ip\<close>\<close>

datatype remote_types =
    UDP (iface: string) (listen_addr: "ipv4_addr option") (listen_port: u16)
      (bind_to_device: "bool option")
  | UDPLz4 (iface: string) (listen_addr: "ipv4_addr option") (listen_port: u16)
      (bind_to_device: "bool option")

record peer_config =
  addresses :: "socket_addr list"
  config_id :: u16

record settings_file =
  config_peers :: "peer_config list"
  keep_alive_interval :: u64
  local_type :: local_types
  remotes :: "remote_types list"
  settings_peer_id :: u16

end
