(* ===== verification/Btree_Map.thy ===== *)
theory Btree_Map
  imports Mpconn_Prelude
begin

text \<open>
  \<open>std::collections::BTreeMap\<close>, the ordered map the sequencer queues packets in: the type of
  association lists with strictly increasing keys, the operations the sources call
  (\<open>new\<close>, \<open>first_entry\<close>, \<open>pop_first\<close>, \<open>entry(k).or_insert(v)\<close>, \<open>is_empty\<close>, \<open>len\<close>),
  and the contract \<open>ordered_map\<close> the sequencer relies on, with what follows from it.
\<close>

section \<open>The contract\<close>

text \<open>
  The laws of an ordered map, in terms of its lookup function: \<open>or_insert\<close> keeps an entry that is
  there, \<open>first\<close> is the entry with the least key, \<open>pop\<close> removes exactly that one.
\<close>

locale ordered_map =
  fixes empty :: "'m"
    and lookup :: "'m \<Rightarrow> 'k :: linorder \<Rightarrow> 'v option"
    and or_insert :: "'k \<Rightarrow> 'v \<Rightarrow> 'm \<Rightarrow> 'm"
    and first :: "'m \<Rightarrow> ('k \<times> 'v) option"
    and pop :: "'m \<Rightarrow> (('k \<times> 'v) \<times> 'm) option"
    and len :: "'m \<Rightarrow> nat"
  assumes lookup_empty: "lookup empty k = None"
    and lookup_or_insert:
      "lookup (or_insert k v m) = (if lookup m k = None then (lookup m)(k \<mapsto> v) else lookup m)"
    and first_None: "first m = None \<longleftrightarrow> lookup m = Map.empty"
    and first_Some: "first m = Some (k, v) \<Longrightarrow> lookup m k = Some v \<and> (\<forall>k' \<in> dom (lookup m). k \<le> k')"
    and pop_None: "pop m = None \<longleftrightarrow> first m = None"
    and pop_Some: "pop m = Some (e, m') \<Longrightarrow>
      first m = Some e \<and> lookup m' = (lookup m)(fst e := None) \<and> len m = Suc (len m')"
    and len_card: "len m = card (dom (lookup m))"
    and finite_dom: "finite (dom (lookup m))"
begin

lemma first_is_Some_iff: "(\<exists>e. first m = Some e) \<longleftrightarrow> dom (lookup m) \<noteq> {}"
  using first_None [of m] by (cases "first m") auto

lemma first_Min:
  assumes "first m = Some (k, v)"
  shows "k = Min (dom (lookup m))"
proof -
  from first_Some [OF assms] have "k \<in> dom (lookup m)" and "\<forall>k' \<in> dom (lookup m). k \<le> k'"
    by auto
  then show ?thesis
    using finite_dom [of m] by (metis Min_eqI)
qed

lemma first_key_iff:
  assumes "\<forall>k' \<in> dom (lookup m). k \<le> k'"
  shows "(\<exists>v. first m = Some (k, v)) \<longleftrightarrow> k \<in> dom (lookup m)"
proof
  assume "\<exists>v. first m = Some (k, v)"
  then show "k \<in> dom (lookup m)" using first_Some by blast
next
  assume k: "k \<in> dom (lookup m)"
  then have "first m \<noteq> None" using first_None [of m] by auto
  then obtain k0 v0 where f: "first m = Some (k0, v0)" by fastforce
  from first_Some [OF f] k have "k0 \<le> k" and "k0 \<in> dom (lookup m)" by auto
  with assms have "k0 = k" by (meson order_antisym)
  with f show "\<exists>v. first m = Some (k, v)" by blast
qed

lemma dom_or_insert: "dom (lookup (or_insert k v m)) = insert k (dom (lookup m))"
  by (auto simp: lookup_or_insert)

lemma or_insert_present: "lookup m k = Some w \<Longrightarrow> lookup (or_insert k v m) = lookup m"
  by (simp add: lookup_or_insert)

lemma pop_first: "first m = Some e \<Longrightarrow> \<exists>m'. pop m = Some (e, m')"
  using pop_None [of m] pop_Some [of m] by (cases "pop m") auto

lemma pop_dom: "pop m = Some (e, m') \<Longrightarrow> dom (lookup m') = dom (lookup m) - {fst e}"
  using pop_Some [of m e m'] by auto

lemma pop_len: "pop m = Some (e, m') \<Longrightarrow> len m' < len m"
  using pop_Some [of m e m'] by simp

lemma pop_later_keys:
  assumes "pop m = Some ((k, v), m')" and "k' \<in> dom (lookup m')"
  shows "k < k'"
proof -
  from pop_Some [OF assms(1)] have f: "first m = Some (k, v)" by simp
  have "k' \<in> dom (lookup m)" and "k' \<noteq> k"
    using pop_dom [OF assms(1)] assms(2) by auto
  with first_Some [OF f] show ?thesis by force
qed

lemma len_zero_iff: "len m = 0 \<longleftrightarrow> first m = None"
  using finite_dom [of m] by (auto simp: len_card first_None)

end

section \<open>Sorted association lists\<close>

fun or_insert_list :: "'k :: linorder \<Rightarrow> 'v \<Rightarrow> ('k \<times> 'v) list \<Rightarrow> ('k \<times> 'v) list" where
  "or_insert_list k v [] = [(k, v)]"
| "or_insert_list k v ((a, b) # es) =
     (if k < a then (k, v) # (a, b) # es
      else if k = a then (a, b) # es
      else (a, b) # or_insert_list k v es)"

lemma set_or_insert_list:
  "set (or_insert_list k v es) \<subseteq> insert (k, v) (set es)"
  by (induction k v es rule: or_insert_list.induct) auto

lemma fst_set_or_insert_list:
  "fst ` set (or_insert_list k v es) = insert k (fst ` set es)"
  by (induction k v es rule: or_insert_list.induct) auto

lemma sorted_or_insert_list:
  assumes "sorted_wrt (<) (map fst es)"
  shows "sorted_wrt (<) (map fst (or_insert_list k v es))"
  using assms
proof (induction k v es rule: or_insert_list.induct)
  case (2 k v a b es)
  have keys: "fst ` set (or_insert_list k v es) = insert k (fst ` set es)"
    by (rule fst_set_or_insert_list)
  show ?case
  proof (cases "k \<le> a")
    case True
    with "2.prems" show ?thesis by auto
  next
    case False
    with 2 have "sorted_wrt (<) (map fst (or_insert_list k v es))" by auto
    moreover have "\<forall>x \<in> fst ` set (or_insert_list k v es). a < x"
      using False "2.prems" by (simp add: keys)
    ultimately show ?thesis using False by auto
  qed
qed simp

lemma map_of_or_insert_list:
  assumes "sorted_wrt (<) (map fst es)"
  shows "map_of (or_insert_list k v es) =
    (if map_of es k = None then (map_of es)(k \<mapsto> v) else map_of es)"
  using assms
proof (induction k v es rule: or_insert_list.induct)
  case (2 k v a b es)
  then have "k < a \<Longrightarrow> map_of es k = None"
    by (force simp: map_of_eq_None_iff)
  with 2 show ?case by (auto simp: fun_eq_iff)
qed simp

lemma sorted_wrt_map_tl: "sorted_wrt (<) (map fst es) \<Longrightarrow> sorted_wrt (<) (map fst (tl es))"
  by (cases es) simp_all

section \<open>The type and its operations\<close>

typedef (overloaded) ('k :: linorder, 'v) btree_map =
    "{es :: ('k \<times> 'v) list. sorted_wrt (<) (map fst es)}"
  morphisms bt_entries Btree
  by (rule exI [of _ "[]"]) simp

setup_lifting type_definition_btree_map

lemma Btree_entries [code abstype]: "Btree (bt_entries m) = m"
  by (rule bt_entries_inverse)

lemma bt_entries_sorted [simp]: "sorted_wrt (<) (map fst (bt_entries m))"
  using bt_entries [of m] by simp

lemma bt_entries_distinct [simp]: "distinct (map fst (bt_entries m))"
  by (simp add: strict_sorted_distinct)

lift_definition bt_new :: "('k :: linorder, 'v) btree_map" is "[]"
  by simp

lift_definition bt_lookup :: "('k :: linorder, 'v) btree_map \<Rightarrow> 'k \<Rightarrow> 'v option" is map_of .

lift_definition bt_or_insert ::
    "'k :: linorder \<Rightarrow> 'v \<Rightarrow> ('k, 'v) btree_map \<Rightarrow> ('k, 'v) btree_map" is or_insert_list
  by (rule sorted_or_insert_list)

lift_definition bt_tail :: "('k :: linorder, 'v) btree_map \<Rightarrow> ('k, 'v) btree_map" is tl
  by (rule sorted_wrt_map_tl)

definition bt_first :: "('k :: linorder, 'v) btree_map \<Rightarrow> ('k \<times> 'v) option" where
  "bt_first m = (case bt_entries m of [] \<Rightarrow> None | e # _ \<Rightarrow> Some e)"

definition bt_pop_first ::
    "('k :: linorder, 'v) btree_map \<Rightarrow> (('k \<times> 'v) \<times> ('k, 'v) btree_map) option" where
  "bt_pop_first m = (case bt_entries m of [] \<Rightarrow> None | e # _ \<Rightarrow> Some (e, bt_tail m))"

definition bt_is_empty :: "('k :: linorder, 'v) btree_map \<Rightarrow> bool" where
  "bt_is_empty m = (bt_entries m = [])"

definition bt_len :: "('k :: linorder, 'v) btree_map \<Rightarrow> nat" where
  "bt_len m = length (bt_entries m)"

lemmas bt_eval [mpconn_defs] =
  bt_new.rep_eq bt_lookup.rep_eq bt_or_insert.rep_eq bt_tail.rep_eq
  bt_first_def bt_pop_first_def bt_is_empty_def bt_len_def

lemma bt_eq_iff: "m = m' \<longleftrightarrow> bt_entries m = bt_entries m'"
  by (simp add: bt_entries_inject)

lemma dom_bt_lookup: "dom (bt_lookup m) = fst ` set (bt_entries m)"
  by (simp add: bt_lookup.rep_eq dom_map_of_conv_image_fst)

section \<open>The type meets the contract\<close>

lemma bt_first_law:
  assumes "bt_first m = Some (k, v)"
  shows "bt_lookup m k = Some v \<and> (\<forall>k' \<in> dom (bt_lookup m). k \<le> k')"
proof -
  from assms obtain es where es: "bt_entries m = (k, v) # es"
    by (auto simp: bt_first_def split: list.splits)
  then have "sorted_wrt (<) (map fst ((k, v) # es))"
    using bt_entries_sorted [of m] by simp
  then have "\<forall>k' \<in> fst ` set es. k < k'" by auto
  with es show ?thesis
    by (auto simp: bt_lookup.rep_eq dom_map_of_conv_image_fst order.strict_iff_order)
qed

lemma bt_pop_law:
  assumes "bt_pop_first m = Some (e, m')"
  shows "bt_first m = Some e \<and> bt_lookup m' = (bt_lookup m)(fst e := None)
    \<and> bt_len m = Suc (bt_len m')"
proof -
  from assms obtain es where es: "bt_entries m = e # es" and m': "m' = bt_tail m"
    by (auto simp: bt_pop_first_def split: list.splits)
  have "distinct (map fst (e # es))"
    using bt_entries_distinct [of m] es by simp
  then have "map_of es (fst e) = None"
    by (simp add: map_of_eq_None_iff)
  with es m' show ?thesis
    by (cases e) (auto simp: bt_eval fun_eq_iff)
qed

lemma bt_or_insert_law:
  "bt_lookup (bt_or_insert k v m) =
    (if bt_lookup m k = None then (bt_lookup m)(k \<mapsto> v) else bt_lookup m)"
  using map_of_or_insert_list [OF bt_entries_sorted, of k v m]
  by (simp only: bt_lookup.rep_eq bt_or_insert.rep_eq)

interpretation bt: ordered_map bt_new bt_lookup bt_or_insert bt_first bt_pop_first bt_len
proof unfold_locales
  fix m :: "('a, 'b) btree_map"
  show "finite (dom (bt_lookup m))"
    by (simp add: dom_bt_lookup)
  show "bt_len m = card (dom (bt_lookup m))"
    using distinct_card [OF bt_entries_distinct [of m]]
    by (simp add: bt_len_def dom_bt_lookup)
  show "(bt_first m = None) = (bt_lookup m = Map.empty)"
    by (auto simp: bt_first_def bt_lookup.rep_eq split: list.splits)
  show "(bt_pop_first m = None) = (bt_first m = None)"
    by (auto simp: bt_first_def bt_pop_first_def split: list.splits)
  show "bt_lookup bt_new k = None" for k :: 'a
    by (simp add: bt_lookup.rep_eq bt_new.rep_eq)
qed (fact bt_or_insert_law bt_first_law bt_pop_law)+

lemma bt_is_empty_iff: "bt_is_empty m \<longleftrightarrow> bt_first m = None"
  by (auto simp: bt_is_empty_def bt_first_def split: list.splits)

text \<open>A sorted list is determined by its entries, so the type is extensional: equal lookups mean
  equal maps.\<close>

lemma bt_lookup_ext:
  assumes "bt_lookup m = bt_lookup m'"
  shows "m = m'"
proof -
  have mem: "(k, v) \<in> set (bt_entries n) \<longleftrightarrow> bt_lookup n k = Some v"
    for n :: "('a, 'b) btree_map" and k v
    by (simp add: bt_lookup.rep_eq)
  then have eq: "set (bt_entries m) = set (bt_entries m')"
    using assms by (auto simp del: map_of_eq_Some_iff)
  have "sorted (map fst (bt_entries n))" for n :: "('a, 'b) btree_map"
    using bt_entries_sorted [of n] by (simp add: strict_sorted_iff)
  moreover have "inj_on fst (set (bt_entries m) \<union> set (bt_entries m'))"
    using eq bt_entries_distinct [of m] by (simp add: distinct_map)
  ultimately have "bt_entries m = bt_entries m'"
    using map_sorted_distinct_set_unique [of fst "bt_entries m" "bt_entries m'"] eq by simp
  then show ?thesis by (simp add: bt_eq_iff)
qed

section \<open>Equality and size\<close>

instantiation btree_map :: (linorder, equal) equal
begin

definition equal_btree_map :: "('a, 'b) btree_map \<Rightarrow> ('a, 'b) btree_map \<Rightarrow> bool" where
  "equal_btree_map m m' = (bt_entries m = bt_entries m')"

instance
  by standard (simp add: equal_btree_map_def bt_eq_iff)

end

instantiation btree_map :: (linorder, type) size
begin

definition size_btree_map :: "('a, 'b) btree_map \<Rightarrow> nat" where
  "size_btree_map m = bt_len m"

instance ..

end

end
