(* ===== verification/Sequencer.thy ===== *)
theory Sequencer
  imports Messages Btree_Map
begin

text \<open>
  \<open>sequencer.rs\<close>: the reorder buffer of one peer. Packets wait in an ordered map keyed by their
  sequence number until the number \<open>next_seq\<close> arrives; \<open>advance_queue\<close> gives up on missing
  numbers once the deadline has passed. The theory holds the operations, the loop that both
  callers drain a sequencer with, the invariant, and what a sequencer delivers over its life.
\<close>

section \<open>State and operations\<close>

record sequencer =
  packet_queue :: "(u64, packet) btree_map"
  next_seq :: u64
  deadline :: duration
  last_update :: system_time

definition sequencer_new :: "duration \<Rightarrow> system_time \<Rightarrow> sequencer" where
  "sequencer_new d now =
     \<lparr>packet_queue = bt_new, next_seq = 0, deadline = d, last_update = now\<rparr>"

definition set_last_update :: "system_time \<Rightarrow> sequencer \<Rightarrow> sequencer" where
  "set_last_update now s = s\<lparr>last_update := now\<rparr>"

definition get_next_packet :: "system_time \<Rightarrow> sequencer \<Rightarrow> panic + packet option \<times> sequencer" where
  "get_next_packet now s =
     (case bt_first (packet_queue s) of
        Some (key, _) \<Rightarrow>
          if key = next_seq s then
            let s1 = s\<lparr>next_seq := next_seq s + 1\<rparr>
            in case unwrap ''pop_first'' (bt_pop_first (packet_queue s1)) of
                 Inl p \<Rightarrow> Inl p
               | Inr ((_, pkt), q) \<Rightarrow> Inr (Some pkt, set_last_update now (s1\<lparr>packet_queue := q\<rparr>))
          else Inr (None, s)
      | None \<Rightarrow> Inr (None, s))"

definition insert_packet :: "packet \<Rightarrow> sequencer \<Rightarrow> sequencer" where
  "insert_packet pkt s =
     (if next_seq s \<le> seq pkt
      then s\<lparr>packet_queue := bt_or_insert (seq pkt) pkt (packet_queue s)\<rparr>
      else s)"

definition advance_queue :: "sequencer \<Rightarrow> panic + sequencer" where
  "advance_queue s =
     (if \<not> bt_is_empty (packet_queue s)
      then case unwrap ''first_entry'' (bt_first (packet_queue s)) of
             Inl p \<Rightarrow> Inl p
           | Inr (key, _) \<Rightarrow> Inr (s\<lparr>next_seq := key\<rparr>)
      else Inr s)"

definition get_queue_length :: "sequencer \<Rightarrow> nat" where
  "get_queue_length s = bt_len (packet_queue s)"

definition have_next_packet :: "sequencer \<Rightarrow> bool" where
  "have_next_packet s =
     (case bt_first (packet_queue s) of Some (key, _) \<Rightarrow> key = next_seq s | None \<Rightarrow> False)"

definition is_deadline_exceeded :: "system_time \<Rightarrow> sequencer \<Rightarrow> panic + bool" where
  "is_deadline_exceeded now s =
     (case duration_since now (last_update s) of
        None \<Rightarrow> Inl (Unwrap_Err ''duration_since'')
      | Some d \<Rightarrow> Inr (deadline s < d))"

lemmas sequencer_defs [mpconn_defs] =
  sequencer_new_def set_last_update_def get_next_packet_def insert_packet_def advance_queue_def
  get_queue_length_def have_next_packet_def is_deadline_exceeded_def

section \<open>The operations in closed form\<close>

text \<open>\<open>pop_first().unwrap()\<close> and \<open>first_entry().unwrap()\<close> cannot panic where they stand.\<close>

lemma get_next_packet_next:
  assumes "have_next_packet s"
  obtains pkt q where "bt_pop_first (packet_queue s) = Some ((next_seq s, pkt), q)"
    and "bt_lookup (packet_queue s) (next_seq s) = Some pkt"
    and "\<And>now. get_next_packet now s = Inr (Some pkt,
      s\<lparr>next_seq := next_seq s + 1, packet_queue := q, last_update := now\<rparr>)"
proof -
  from assms obtain pkt where f: "bt_first (packet_queue s) = Some (next_seq s, pkt)"
    by (auto simp: have_next_packet_def split: option.splits)
  then obtain q where "bt_pop_first (packet_queue s) = Some ((next_seq s, pkt), q)"
    using bt.pop_first by blast
  moreover have "bt_lookup (packet_queue s) (next_seq s) = Some pkt"
    using bt.first_Some [OF f] by simp
  ultimately show ?thesis
    using f by (intro that) (simp_all add: get_next_packet_def set_last_update_def)
qed

lemma get_next_packet_none:
  "\<not> have_next_packet s \<Longrightarrow> get_next_packet now s = Inr (None, s)"
  by (auto simp: get_next_packet_def have_next_packet_def split: option.splits)

lemma get_next_packet_shrinks:
  assumes "get_next_packet now s = Inr (Some pkt, s')"
  shows "get_queue_length s' < get_queue_length s"
proof -
  from assms have "have_next_packet s"
    using get_next_packet_none by fastforce
  then obtain p q where q: "bt_pop_first (packet_queue s) = Some ((next_seq s, p), q)"
    and "\<And>now. get_next_packet now s = Inr (Some p,
      s\<lparr>next_seq := next_seq s + 1, packet_queue := q, last_update := now\<rparr>)"
    by (rule get_next_packet_next) blast
  with assms have "packet_queue s' = q" by auto
  with bt.pop_len [OF q] show ?thesis by (simp add: get_queue_length_def)
qed

lemma advance_queue_eq:
  "advance_queue s = Inr (case bt_first (packet_queue s) of
     None \<Rightarrow> s | Some (key, _) \<Rightarrow> s\<lparr>next_seq := key\<rparr>)"
  by (auto simp: advance_queue_def bt_is_empty_iff split: option.splits)

lemma insert_packet_frame [simp, mpconn_frame]:
  "next_seq (insert_packet p s) = next_seq s"
  "deadline (insert_packet p s) = deadline s"
  "last_update (insert_packet p s) = last_update s"
  by (simp_all add: insert_packet_def)

section \<open>The drain loop\<close>

text \<open>
  \<open>while sequencer.have_next_packet() { if let Some(p) = sequencer.get_next_packet() { body } }\<close>,
  the loop of both callers, for any body on their own state. The i-th turn reads the clock at
  \<open>ts i\<close>. A panic of the body leaves the loop.
\<close>

function while_next ::
    "(packet \<Rightarrow> 's \<Rightarrow> 's outcome) \<Rightarrow> (nat \<Rightarrow> system_time) \<Rightarrow> sequencer \<Rightarrow> 's \<Rightarrow> (sequencer \<times> 's) outcome"
where
  "while_next body ts s m =
     (if have_next_packet s then
        case get_next_packet (ts 0) s of
          Inl p \<Rightarrow> Panicked p (s, m)
        | Inr (None, s') \<Rightarrow> while_next body (later ts) s' m
        | Inr (Some pkt, s') \<Rightarrow>
            (case body pkt m of
               Panicked p m' \<Rightarrow> Panicked p (s', m')
             | Running m' \<Rightarrow> while_next body (later ts) s' m')
      else Running (s, m))"
  by pat_completeness auto
termination
proof (relation "measure (\<lambda>(body, ts, s, m). get_queue_length s)", goal_cases)
  case 1
  show ?case by simp
next
  case (2 body ts s m)
  then show ?case by (auto elim: get_next_packet_next)
next
  case (3 body ts s m)
  then show ?case by (auto intro: get_next_packet_shrinks)
qed

declare while_next.simps [simp del]

lemma while_next_stop [simp]:
  "\<not> have_next_packet s \<Longrightarrow> while_next body ts s m = Running (s, m)"
  by (simp add: while_next.simps)

text \<open>What the loop hands to its body: the queued packets numbered consecutively from
  \<open>next_seq\<close>.\<close>

fun consecutive :: "u64 \<Rightarrow> (u64 \<times> packet) list \<Rightarrow> packet list" where
  "consecutive n [] = []"
| "consecutive n ((k, p) # es) = (if k = n then p # consecutive (n + 1) es else [])"

definition pending :: "sequencer \<Rightarrow> packet list" where
  "pending s = consecutive (next_seq s) (bt_entries (packet_queue s))"

definition drained :: "(nat \<Rightarrow> system_time) \<Rightarrow> sequencer \<Rightarrow> sequencer" where
  "drained ts s = fst (final (while_next (\<lambda>_ u. Running u) ts s ()))"

text \<open>One turn of the loop, the induction principle for everything about it.\<close>

lemma drain_induct [case_names stop turn]:
  fixes P :: "(nat \<Rightarrow> system_time) \<Rightarrow> sequencer \<Rightarrow> bool"
  assumes stop: "\<And>ts s. \<not> have_next_packet s \<Longrightarrow> pending s = [] \<Longrightarrow> drained ts s = s \<Longrightarrow> P ts s"
    and turn: "\<And>ts s pkt q s'. have_next_packet s \<Longrightarrow>
      bt_pop_first (packet_queue s) = Some ((next_seq s, pkt), q) \<Longrightarrow>
      bt_lookup (packet_queue s) (next_seq s) = Some pkt \<Longrightarrow>
      s' = s\<lparr>next_seq := next_seq s + 1, packet_queue := q, last_update := ts 0\<rparr> \<Longrightarrow>
      get_next_packet (ts 0) s = Inr (Some pkt, s') \<Longrightarrow>
      pending s = pkt # pending s' \<Longrightarrow> drained ts s = drained (later ts) s' \<Longrightarrow>
      P (later ts) s' \<Longrightarrow> P ts s"
  shows "P ts s"
proof (induction "bt_len (packet_queue s)" arbitrary: ts s rule: less_induct)
  case less
  show ?case
  proof (cases "have_next_packet s")
    case False
    then have "pending s = []"
      by (auto simp: pending_def have_next_packet_def bt_first_def split: list.splits)
    with False show ?thesis by (simp add: stop drained_def)
  next
    case True
    then obtain pkt q where q: "bt_pop_first (packet_queue s) = Some ((next_seq s, pkt), q)"
      and lk: "bt_lookup (packet_queue s) (next_seq s) = Some pkt"
      and nx: "\<And>now. get_next_packet now s = Inr (Some pkt,
        s\<lparr>next_seq := next_seq s + 1, packet_queue := q, last_update := now\<rparr>)"
      by (rule get_next_packet_next) blast
    define s' where "s' = s\<lparr>next_seq := next_seq s + 1, packet_queue := q, last_update := ts 0\<rparr>"
    have "drained ts s = drained (later ts) s'"
      using True nx by (simp add: drained_def s'_def while_next.simps [of _ ts s])
    moreover have "pending s = pkt # pending s'"
      using q by (auto simp: pending_def s'_def bt_pop_first_def bt_tail.rep_eq split: list.splits)
    moreover have "P (later ts) s'"
      using bt.pop_Some [OF q] by (intro less) (simp add: s'_def)
    ultimately show ?thesis
      using True q lk nx [of "ts 0"] by (intro turn [of s pkt q s']) (simp_all add: s'_def)
  qed
qed

text \<open>
  The loop is the \<open>for\<close> loop over the pending packets: same effect on the caller's state, same
  panics; if no body panics, the sequencer ends drained.
\<close>

lemma while_next_for_each:
  "snd (final (while_next body ts s m)) = final (for_each body (pending s) m) \<and>
   is_running (while_next body ts s m) = is_running (for_each body (pending s) m) \<and>
   (is_running (while_next body ts s m) \<longrightarrow> fst (final (while_next body ts s m)) = drained ts s)"
proof (induction ts s arbitrary: m rule: drain_induct)
  case (stop ts s)
  then show ?case by simp
next
  case (turn ts s pkt q s')
  have unfold: "while_next body ts s m = (case body pkt m of
      Panicked p m' \<Rightarrow> Panicked p (s', m') | Running m' \<Rightarrow> while_next body (later ts) s' m')"
    using turn(1,5) by (simp add: while_next.simps [of body ts s])
  show ?case
  proof (cases "body pkt m")
    case (Running m')
    with turn(6,7) turn(8) [of m'] show ?thesis by (simp add: unfold)
  next
    case (Panicked p m')
    with turn(6) show ?thesis by (simp add: unfold)
  qed
qed

lemma while_next_Running:
  assumes "for_each body (pending s) m = Running m'"
  shows "while_next body ts s m = Running (drained ts s, m')"
proof -
  have "is_running (while_next body ts s m)" and "snd (final (while_next body ts s m)) = m'"
    and "fst (final (while_next body ts s m)) = drained ts s"
    using while_next_for_each [of body ts s m] assms by simp_all
  then show ?thesis
    by (cases "while_next body ts s m") auto
qed

section \<open>The invariant\<close>

text \<open>Every queued packet sits under its own sequence number, and none is older than
  \<open>next_seq\<close>.\<close>

definition seq_inv :: "sequencer \<Rightarrow> bool" where
  "seq_inv s = list_all (\<lambda>(k, p). seq p = k \<and> next_seq s \<le> k) (bt_entries (packet_queue s))"

lemma seq_inv_lookup:
  "seq_inv s \<longleftrightarrow> (\<forall>k p. bt_lookup (packet_queue s) k = Some p \<longrightarrow> seq p = k \<and> next_seq s \<le> k)"
  by (auto simp: seq_inv_def list_all_iff bt_lookup.rep_eq)

lemma seq_invD:
  "seq_inv s \<Longrightarrow> bt_lookup (packet_queue s) k = Some p \<Longrightarrow> seq p = k \<and> next_seq s \<le> k"
  by (simp add: seq_inv_lookup)

lemma seq_inv_new [mpconn_inv]: "seq_inv (sequencer_new d now)"
  by (simp add: seq_inv_def sequencer_new_def bt_new.rep_eq)

lemma seq_inv_insert [mpconn_inv]: "seq_inv s \<Longrightarrow> seq_inv (insert_packet p s)"
  by (auto simp: seq_inv_lookup insert_packet_def bt.lookup_or_insert)

lemma seq_inv_advance [mpconn_inv]:
  assumes "seq_inv s" and "advance_queue s = Inr s'"
  shows "seq_inv s'"
proof (cases "bt_first (packet_queue s)")
  case None
  with assms show ?thesis by (simp add: advance_queue_eq)
next
  case (Some e)
  then obtain k v where "bt_first (packet_queue s) = Some (k, v)" by (cases e) simp
  with bt.first_Some [OF this] assms show ?thesis
    by (auto simp: seq_inv_lookup advance_queue_eq)
qed

lemma seq_inv_pop:
  assumes "seq_inv s" and "bt_pop_first (packet_queue s) = Some ((next_seq s, pkt), q)"
  shows "seq_inv (s\<lparr>next_seq := next_seq s + 1, packet_queue := q, last_update := t\<rparr>)"
proof -
  have "seq p = k \<and> next_seq s + 1 \<le> k" if "bt_lookup q k = Some p" for k p
  proof -
    from that have "next_seq s < k"
      using bt.pop_later_keys [OF assms(2)] by blast
    moreover from that have "bt_lookup (packet_queue s) k = Some p"
      using bt.pop_Some [OF assms(2)] by (auto split: if_splits)
    ultimately show ?thesis
      using seq_invD [OF assms(1)] by (auto intro: u64_Suc_le)
  qed
  then show ?thesis by (simp add: seq_inv_lookup)
qed

lemma seq_inv_get_next [mpconn_inv]:
  assumes "seq_inv s" and "get_next_packet now s = Inr (r, s')"
  shows "seq_inv s'"
proof (cases "have_next_packet s")
  case True
  then obtain pkt q where q: "bt_pop_first (packet_queue s) = Some ((next_seq s, pkt), q)"
    and "\<And>now. get_next_packet now s = Inr (Some pkt,
      s\<lparr>next_seq := next_seq s + 1, packet_queue := q, last_update := now\<rparr>)"
    by (rule get_next_packet_next) blast
  with assms(2) seq_inv_pop [OF assms(1) q] show ?thesis by auto
next
  case False
  with assms show ?thesis by (simp add: get_next_packet_none)
qed

lemma seq_inv_drained [mpconn_inv]: "seq_inv s \<Longrightarrow> seq_inv (drained ts s)"
  by (induction ts s rule: drain_induct) (simp_all add: seq_inv_pop)

text \<open>The loop keeps the invariant also when its body panics half-way.\<close>

lemma seq_inv_while_next [mpconn_inv]:
  "seq_inv s \<Longrightarrow> seq_inv (fst (final (while_next body ts s m)))"
proof (induction ts s arbitrary: m rule: drain_induct)
  case (stop ts s)
  then show ?case by simp
next
  case (turn ts s pkt q s')
  then have "seq_inv s'" by (simp add: seq_inv_pop)
  with turn show ?case
    by (cases "body pkt m") (simp_all add: while_next.simps [of body ts s])
qed

text \<open>It only removes packets from the queue, and stamps the sequencer with its readings.\<close>

lemma while_next_lookup:
  "bt_lookup (packet_queue (fst (final (while_next body ts s m)))) k = Some p \<Longrightarrow>
    bt_lookup (packet_queue s) k = Some p"
proof (induction ts s arbitrary: m rule: drain_induct)
  case (stop ts s)
  then show ?case by simp
next
  case (turn ts s pkt q s')
  have "bt_lookup q k = Some p"
  proof (cases "body pkt m")
    case (Running m')
    with turn have "bt_lookup (packet_queue s') k = Some p"
      by (intro turn(8) [of m']) (simp add: while_next.simps [of body ts s])
    with turn(4) show ?thesis by simp
  next
    case (Panicked pa m')
    with turn show ?thesis by (simp add: while_next.simps [of body ts s])
  qed
  with bt.pop_Some [OF turn(2)] show ?case by (auto split: if_splits)
qed

lemma while_next_last_update:
  assumes "\<And>i. ts i \<le> t" and "last_update s \<le> t"
  shows "last_update (fst (final (while_next body ts s m))) \<le> t"
  using assms
proof (induction ts s arbitrary: m rule: drain_induct)
  case (stop ts s)
  then show ?case by simp
next
  case (turn ts s pkt q s')
  have "last_update (fst (final (while_next body (later ts) s' m'))) \<le> t" for m'
    using turn by (intro turn(8)) (simp_all add: later_def)
  with turn show ?case
    by (cases "body pkt m") (simp_all add: while_next.simps [of body ts s])
qed

lemma while_next_only_panics:
  assumes "\<And>p m. only_panics Q (body p m)"
  shows "only_panics Q (while_next body ts s m)"
proof (induction ts s arbitrary: m rule: drain_induct)
  case (turn ts s pkt q s')
  with assms [of pkt m] show ?case
    by (cases "body pkt m") (simp_all add: while_next.simps [of body ts s])
qed simp

section \<open>What is delivered\<close>

text \<open>With the invariant, a packet is ready exactly if the queue holds the number
  \<open>next_seq\<close>.\<close>

lemma have_next_packet_iff:
  "seq_inv s \<Longrightarrow> have_next_packet s \<longleftrightarrow> next_seq s \<in> dom (bt_lookup (packet_queue s))"
proof -
  assume "seq_inv s"
  then have "\<forall>k \<in> dom (bt_lookup (packet_queue s)). next_seq s \<le> k"
    using seq_invD by blast
  from bt.first_key_iff [OF this] show ?thesis
    by (auto simp: have_next_packet_def split: option.splits)
qed

lemma not_have_next_drained [simp]: "\<not> have_next_packet (drained ts s)"
  by (induction ts s rule: drain_induct) simp_all

lemma pending_drained [simp]: "pending (drained ts s) = []"
  by (induction ts s rule: drain_induct) simp_all

text \<open>The pending packets carry the numbers \<open>next_seq\<close>, \<open>next_seq + 1\<close>, and so on; draining moves
  \<open>next_seq\<close> past the last of them and removes exactly them from the queue.\<close>

lemma next_seq_drained:
  "next_seq (drained ts s) = next_seq s + of_nat (length (pending s))"
  by (induction ts s rule: drain_induct) (simp_all add: add.assoc add.commute)

lemma seq_pending_nth:
  assumes "seq_inv s" and "i < length (pending s)"
  shows "seq (pending s ! i) = next_seq s + of_nat i"
proof -
  have "i < length (consecutive n es) \<Longrightarrow> \<forall>(k, p) \<in> set es. seq p = k \<Longrightarrow>
      seq (consecutive n es ! i) = n + of_nat i" for n es
  proof (induction n es arbitrary: i rule: consecutive.induct)
    case (2 n k p es)
    then show ?case by (cases i) (auto simp: add.assoc split: if_splits)
  qed simp
  with assms show ?thesis
    by (force simp: pending_def seq_inv_def list_all_iff)
qed

text \<open>The numbers do not wrap around within one drain: after the top number the queue is empty.\<close>

lemma pending_bound:
  fixes ts :: "nat \<Rightarrow> system_time"
  shows "seq_inv s \<Longrightarrow> unat (next_seq s) + length (pending s) \<le> 2 ^ 64"
proof (induction ts s rule: drain_induct)
  case (stop ts s)
  then show ?case using unat_u64_bound [of "next_seq s"] by simp
next
  case (turn ts s pkt q s')
  from turn(2,4,9) have inv': "seq_inv s'" by (simp add: seq_inv_pop)
  show ?case
  proof (cases "next_seq s = u64_max")
    case True
    have "bt_lookup q = Map.empty"
      using bt.pop_later_keys [OF turn(2)] True by (metis domIff ext u64_le_max leD)
    then have "bt_first q = None" using bt.first_None by blast
    then have "pending s' = []"
      using turn(4) by (auto simp: pending_def bt_first_def split: list.splits)
    then show ?thesis
      using turn(6) unat_u64_bound [of "next_seq s"] by simp
  next
    case False
    with turn inv' show ?thesis by (simp add: unat_succ_u64)
  qed
qed

lemma unat_seq_pending_nth:
  assumes "seq_inv s" and "i < length (pending s)"
  shows "unat (seq (pending s ! i)) = unat (next_seq s) + i"
proof -
  have "unat (next_seq s) + i < 2 ^ 64"
    using pending_bound [OF assms(1)] assms(2) by linarith
  then show ?thesis
    using seq_pending_nth [OF assms]
    by (simp add: unat_of_nat_u64 unat_add_u64)
qed

lemma sorted_pending: "seq_inv s \<Longrightarrow> sorted_wrt (<) (map seq (pending s))"
  by (auto simp: sorted_wrt_iff_nth_less word_less_nat_alt unat_seq_pending_nth)

lemma pending_ge_next_seq:
  assumes "seq_inv s" and "p \<in> set (pending s)"
  shows "next_seq s \<le> seq p"
  using assms unat_seq_pending_nth
  by (fastforce simp: in_set_conv_nth word_le_nat_alt)

lemma pending_lookup:
  fixes ts :: "nat \<Rightarrow> system_time"
  shows "seq_inv s \<Longrightarrow> p \<in> set (pending s) \<Longrightarrow> bt_lookup (packet_queue s) (seq p) = Some p"
proof (induction ts s rule: drain_induct)
  case (turn ts s pkt q s')
  then have "seq_inv s'" by (simp add: seq_inv_pop)
  show ?case
  proof (cases "p = pkt")
    case True
    with turn(3) seq_invD [OF turn(9) turn(3)] show ?thesis by simp
  next
    case False
    with turn \<open>seq_inv s'\<close> have "bt_lookup q (seq p) = Some p" by simp
    then show ?thesis
      using bt.pop_Some [OF turn(2)] by (auto split: if_splits)
  qed
qed simp

lemma lookup_drained:
  "seq_inv s \<Longrightarrow> bt_lookup (packet_queue (drained ts s)) k =
    (if k \<in> seq ` set (pending s) then None else bt_lookup (packet_queue s) k)"
proof (induction ts s rule: drain_induct)
  case (stop ts s)
  then show ?case by simp
next
  case (turn ts s pkt q s')
  then have "seq_inv s'" by (simp add: seq_inv_pop)
  moreover have "seq pkt = next_seq s"
    using seq_invD [OF turn(9) turn(3)] by simp
  ultimately show ?case
    using turn bt.pop_Some [OF turn(2)] by simp
qed

text \<open>As long as the top number is not delivered, \<open>next_seq\<close> advances without wrapping.\<close>

lemma unat_next_seq_drained:
  assumes "seq_inv s" and "u64_max \<notin> seq ` set (pending s)"
  shows "unat (next_seq (drained ts s)) = unat (next_seq s) + length (pending s)"
proof -
  have "unat (next_seq s) + length (pending s) < 2 ^ 64"
  proof (cases "pending s = []")
    case True
    then show ?thesis using unat_u64_bound [of "next_seq s"] by simp
  next
    case False
    let ?i = "length (pending s) - 1"
    from False have i: "?i < length (pending s)" by simp
    with assms(2) have "seq (pending s ! ?i) \<noteq> u64_max" by (metis image_eqI nth_mem)
    then have "unat (seq (pending s ! ?i)) \<noteq> 2 ^ 64 - 1"
      by (simp only: u64_eq_max_iff not_False_eq_True)
    then have "unat (next_seq s) + ?i \<noteq> 2 ^ 64 - 1"
      using unat_seq_pending_nth [OF assms(1) i] by simp
    with pending_bound [OF assms(1)] i show ?thesis by linarith
  qed
  then show ?thesis
    by (simp add: next_seq_drained unat_of_nat_u64 unat_add_u64)
qed

section \<open>A contract for in-order delivery\<close>

text \<open>
  What a client expects of a buffer, whatever its representation: what is stored stays stored until
  it is handed out (\<open>keeping_buffer\<close>); a step on an event hands out items whose numbers lie between
  the old and the new value of the next number (\<open>reorder_buffer\<close>). From the steps follows what whole
  runs hand out.
\<close>

fun run_events :: "('e \<Rightarrow> 's \<Rightarrow> 'p list \<times> 's) \<Rightarrow> 'e list \<Rightarrow> 's \<Rightarrow> 'p list \<times> 's" where
  "run_events step [] s = ([], s)"
| "run_events step (e # es) s =
     (let (ds, s') = step e s; (ds', s'') = run_events step es s' in (ds @ ds', s''))"

locale keeping_buffer =
  fixes step :: "'e \<Rightarrow> 's \<Rightarrow> 'p list \<times> 's"
    and inv :: "'s \<Rightarrow> bool"
    and stored :: "'s \<Rightarrow> 'p set"
  assumes keeps_inv: "inv s \<Longrightarrow> inv (snd (step e s))"
    and step_stored: "inv s \<Longrightarrow> stored s \<subseteq> set (fst (step e s)) \<union> stored (snd (step e s))"
begin

text \<open>Nothing stored is lost.\<close>

lemma run_stored:
  "inv s \<Longrightarrow> stored s \<subseteq> set (fst (run_events step es s)) \<union> stored (snd (run_events step es s))"
proof (induction es arbitrary: s)
  case (Cons e es)
  then have "stored s \<subseteq> set (fst (step e s)) \<union> stored (snd (step e s))"
    by (simp add: step_stored)
  moreover have "stored (snd (step e s)) \<subseteq> set (fst (run_events step es (snd (step e s))))
      \<union> stored (snd (run_events step es (snd (step e s))))"
    using Cons by (simp add: keeps_inv)
  ultimately show ?case by (auto simp: Let_def case_prod_beta)
qed simp

end

locale reorder_buffer =
  fixes step :: "'e \<Rightarrow> 's \<Rightarrow> 'p list \<times> 's"
    and inv :: "'s \<Rightarrow> bool"
    and ok :: "'e \<Rightarrow> bool"
    and nxt :: "'s \<Rightarrow> nat"
    and num :: "'p \<Rightarrow> nat"
  assumes step_inv: "inv s \<Longrightarrow> ok e \<Longrightarrow> inv (snd (step e s))"
    and step_sorted: "inv s \<Longrightarrow> ok e \<Longrightarrow> sorted_wrt (<) (map num (fst (step e s)))"
    and step_window: "inv s \<Longrightarrow> ok e \<Longrightarrow> p \<in> set (fst (step e s)) \<Longrightarrow>
      nxt s \<le> num p \<and> num p < nxt (snd (step e s))"
    and step_mono: "inv s \<Longrightarrow> ok e \<Longrightarrow> nxt s \<le> nxt (snd (step e s))"
begin

lemma run_inv:
  "inv s \<Longrightarrow> list_all ok es \<Longrightarrow> inv (snd (run_events step es s))"
  by (induction es arbitrary: s) (simp_all add: step_inv Let_def case_prod_beta)

lemma run_mono:
  "inv s \<Longrightarrow> list_all ok es \<Longrightarrow> nxt s \<le> nxt (snd (run_events step es s))"
proof (induction es arbitrary: s)
  case (Cons e es)
  then have "nxt s \<le> nxt (snd (step e s))" by (simp add: step_mono)
  also have "\<dots> \<le> nxt (snd (run_events step es (snd (step e s))))"
    using Cons by (simp add: step_inv)
  finally show ?case by (simp add: Let_def case_prod_beta)
qed simp

lemma run_window:
  "inv s \<Longrightarrow> list_all ok es \<Longrightarrow> p \<in> set (fst (run_events step es s)) \<Longrightarrow>
    nxt s \<le> num p \<and> num p < nxt (snd (run_events step es s))"
proof (induction es arbitrary: s)
  case (Cons e es)
  let ?s' = "snd (step e s)"
  have inv': "inv ?s'" and ok: "list_all ok es" and mono: "nxt s \<le> nxt ?s'"
    using Cons.prems by (simp_all add: step_inv step_mono)
  consider "p \<in> set (fst (step e s))" | "p \<in> set (fst (run_events step es ?s'))"
    using Cons.prems by (auto simp: Let_def case_prod_beta)
  then show ?case
  proof cases
    case 1
    then show ?thesis
      using Cons.prems step_window [of s e p] run_mono [OF inv' ok]
      by (simp add: Let_def case_prod_beta)
  next
    case 2
    then show ?thesis
      using Cons.IH [OF inv' ok] mono by (simp add: Let_def case_prod_beta)
  qed
qed simp

text \<open>In order and at most once, over any number of steps.\<close>

lemma run_sorted:
  "inv s \<Longrightarrow> list_all ok es \<Longrightarrow> sorted_wrt (<) (map num (fst (run_events step es s)))"
proof (induction es arbitrary: s)
  case (Cons e es)
  let ?s' = "snd (step e s)"
  have inv': "inv ?s'" and ok: "list_all ok es"
    using Cons.prems by (simp_all add: step_inv)
  have "num p < num p'"
    if "p \<in> set (fst (step e s))" and "p' \<in> set (fst (run_events step es ?s'))" for p p'
    using that Cons.prems step_window [of s e p] run_window [OF inv' ok] by fastforce
  with Cons.IH [OF inv' ok] Cons.prems show ?case
    by (auto simp: Let_def case_prod_beta sorted_wrt_append step_sorted)
qed simp

end

section \<open>The life of a sequencer\<close>

text \<open>
  A peer's sequencer sees two kinds of events: a packet arrives (it is inserted and the queue
  drained) or the deadline has passed (the queue is advanced and drained). An event carries the
  clock readings of its drain loop. \<open>seq_step\<close> returns what is delivered and the new state.
\<close>

datatype seq_event = Arrive packet "nat \<Rightarrow> system_time" | Expire "nat \<Rightarrow> system_time"

fun seq_step :: "seq_event \<Rightarrow> sequencer \<Rightarrow> packet list \<times> sequencer" where
  "seq_step (Arrive p ts) s = (let s1 = insert_packet p s in (pending s1, drained ts s1))"
| "seq_step (Expire ts) s =
     (case advance_queue s of Inl _ \<Rightarrow> ([], s) | Inr s1 \<Rightarrow> (pending s1, drained ts s1))"

abbreviation seq_run :: "seq_event list \<Rightarrow> sequencer \<Rightarrow> packet list \<times> sequencer" where
  "seq_run \<equiv> run_events seq_step"

text \<open>Away from the top sequence number \<open>2^64 - 1\<close>.\<close>

definition below_top :: "sequencer \<Rightarrow> bool" where
  "below_top s = list_all (\<lambda>(k, _). k \<noteq> u64_max) (bt_entries (packet_queue s))"

fun event_below_top :: "seq_event \<Rightarrow> bool" where
  "event_below_top (Arrive p ts) = (seq p \<noteq> u64_max)"
| "event_below_top (Expire ts) = True"

text \<open>All arrivals satisfy \<open>P\<close>.\<close>

fun arrives_only :: "(packet \<Rightarrow> bool) \<Rightarrow> seq_event \<Rightarrow> bool" where
  "arrives_only P (Arrive p ts) = P p"
| "arrives_only P (Expire ts) = True"

lemma below_top_iff: "below_top s \<longleftrightarrow> u64_max \<notin> dom (bt_lookup (packet_queue s))"
  by (force simp: below_top_def list_all_iff dom_bt_lookup)

text \<open>Both events first prepare the queue, then drain it.\<close>

definition prepared :: "seq_event \<Rightarrow> sequencer \<Rightarrow> sequencer" where
  "prepared e s = (case e of Arrive p ts \<Rightarrow> insert_packet p s | Expire ts \<Rightarrow> projr (advance_queue s))"

fun readings :: "seq_event \<Rightarrow> nat \<Rightarrow> system_time" where
  "readings (Arrive p ts) = ts"
| "readings (Expire ts) = ts"

lemma seq_step_prepared: "seq_step e s = (pending (prepared e s), drained (readings e) (prepared e s))"
  by (cases e) (simp_all add: prepared_def advance_queue_eq Let_def)

lemma prepared_props:
  assumes "seq_inv s" and "below_top s" and "event_below_top e"
  shows "seq_inv (prepared e s)" and "below_top (prepared e s)"
    and "next_seq s \<le> next_seq (prepared e s)"
    and "dom (bt_lookup (packet_queue s)) \<subseteq> dom (bt_lookup (packet_queue (prepared e s)))"
proof -
  show "seq_inv (prepared e s)"
    using assms(1) seq_inv_insert seq_inv_advance [OF assms(1)]
    by (cases e) (simp_all add: prepared_def advance_queue_eq)
  show "below_top (prepared e s)"
    using assms(2,3)
    by (cases e) (auto simp: below_top_iff prepared_def insert_packet_def bt.lookup_or_insert
        advance_queue_eq split: option.splits)
  show "dom (bt_lookup (packet_queue s)) \<subseteq> dom (bt_lookup (packet_queue (prepared e s)))"
    by (cases e) (auto simp: prepared_def insert_packet_def bt.lookup_or_insert
        advance_queue_eq split: option.splits)
  show "next_seq s \<le> next_seq (prepared e s)"
    using seq_invD [OF assms(1)] bt.first_Some
    by (cases e) (fastforce simp: prepared_def insert_packet_def advance_queue_eq
        split: option.splits)+
qed

lemma below_top_drained:
  "seq_inv s \<Longrightarrow> below_top s \<Longrightarrow> below_top (drained ts s)"
  by (auto simp: below_top_iff lookup_drained split: if_splits)

lemma below_top_pending:
  assumes "seq_inv s" and "below_top s"
  shows "u64_max \<notin> seq ` set (pending s)"
  using assms pending_lookup by (force simp: below_top_iff)

interpretation sq: reorder_buffer seq_step "\<lambda>s. seq_inv s \<and> below_top s" event_below_top
  "\<lambda>s. unat (next_seq s)" "\<lambda>p. unat (seq p)"
proof (unfold_locales, goal_cases)
  case (1 s e)
  then show ?case
    by (simp add: seq_step_prepared prepared_props seq_inv_drained below_top_drained)
next
  case (2 s e)
  then have "sorted_wrt (<) (map seq (pending (prepared e s)))"
    by (simp add: prepared_props sorted_pending)
  then show ?case
    by (simp add: seq_step_prepared sorted_wrt_map word_less_nat_alt)
next
  case (3 s e p)
  let ?s1 = "prepared e s"
  have inv: "seq_inv ?s1" and top: "below_top ?s1" and le: "next_seq s \<le> next_seq ?s1"
    using 3 by (simp_all add: prepared_props)
  from 3 obtain i where i: "i < length (pending ?s1)" and p: "p = pending ?s1 ! i"
    by (auto simp: seq_step_prepared in_set_conv_nth)
  show ?case
    using le i unat_seq_pending_nth [OF inv i]
      unat_next_seq_drained [OF inv below_top_pending [OF inv top], of "readings e"]
    by (simp add: seq_step_prepared p word_le_nat_alt)
next
  case (4 s e)
  let ?s1 = "prepared e s"
  have inv: "seq_inv ?s1" and top: "below_top ?s1" and le: "next_seq s \<le> next_seq ?s1"
    using 4 by (simp_all add: prepared_props)
  show ?case
    using le unat_next_seq_drained [OF inv below_top_pending [OF inv top], of "readings e"]
    by (simp add: seq_step_prepared word_le_nat_alt)
qed

text \<open>The packets in the queue.\<close>

definition queued_packets :: "sequencer \<Rightarrow> packet set" where
  "queued_packets s = ran (bt_lookup (packet_queue s))"

lemma seq_inv_prepared: "seq_inv s \<Longrightarrow> seq_inv (prepared e s)"
  using seq_inv_insert seq_inv_advance by (cases e) (auto simp: prepared_def advance_queue_eq)

lemma lookup_prepared:
  "bt_lookup (packet_queue s) k = Some p \<Longrightarrow> bt_lookup (packet_queue (prepared e s)) k = Some p"
  by (cases e) (auto simp: prepared_def insert_packet_def bt.lookup_or_insert advance_queue_eq split: option.splits)

lemma queued_prepared: "queued_packets s \<subseteq> queued_packets (prepared e s)"
proof
  fix p assume "p \<in> queued_packets s"
  then obtain k where "bt_lookup (packet_queue s) k = Some p" by (auto simp: queued_packets_def ran_def)
  from lookup_prepared [OF this, of e] show "p \<in> queued_packets (prepared e s)"
    by (auto simp: queued_packets_def ran_def)
qed

lemma queued_drained:
  assumes "seq_inv s"
  shows "queued_packets s \<subseteq> set (pending s) \<union> queued_packets (drained ts s)"
proof
  fix p assume "p \<in> queued_packets s"
  then obtain k where k: "bt_lookup (packet_queue s) k = Some p" by (auto simp: queued_packets_def ran_def)
  show "p \<in> set (pending s) \<union> queued_packets (drained ts s)"
  proof (cases "k \<in> seq ` set (pending s)")
    case True
    then obtain q where "q \<in> set (pending s)" "k = seq q" by auto
    with pending_lookup [OF assms this(1)] k show ?thesis by simp
  next
    case False
    with k lookup_drained [OF assms, of ts k] show ?thesis by (auto simp: queued_packets_def ran_def)
  qed
qed

interpretation kept: keeping_buffer seq_step seq_inv queued_packets
proof
  show "seq_inv (snd (seq_step e s))" if "seq_inv s" for e s
    using that by (simp add: seq_step_prepared seq_inv_prepared seq_inv_drained)
  show "queued_packets s \<subseteq> set (fst (seq_step e s)) \<union> queued_packets (snd (seq_step e s))" if "seq_inv s" for e s
    using queued_prepared [of s e] queued_drained [OF seq_inv_prepared [OF that], of e "readings e"]
    by (auto simp: seq_step_prepared)
qed

lemma seq_inv_run: "seq_inv s \<Longrightarrow> seq_inv (snd (seq_run es s))"
  by (induction es arbitrary: s) (simp_all add: kept.keeps_inv Let_def case_prod_beta del: seq_step.simps)

section \<open>Exact delivery\<close>

text \<open>
  The reference: of a list of arrivals, the first copy of every number, from 0 up to the first
  number that did not arrive.
\<close>

definition first_copy :: "packet list \<Rightarrow> nat \<Rightarrow> packet option" where
  "first_copy ps n = find (\<lambda>p. unat (seq p) = n) ps"

definition in_order_prefix :: "packet list \<Rightarrow> packet list" where
  "in_order_prefix ps =
     map the (takeWhile (\<lambda>x. x \<noteq> None) (map (first_copy ps) [0..<length ps]))"

text \<open>A maximal run of a partial function on the numbers, from \<open>n\<close> on.\<close>

definition is_run :: "(nat \<Rightarrow> 'a option) \<Rightarrow> nat \<Rightarrow> 'a list \<Rightarrow> bool" where
  "is_run f n xs \<longleftrightarrow> (\<forall>i < length xs. f (n + i) = Some (xs ! i)) \<and> f (n + length xs) = None"

lemma is_run_length_le:
  assumes "is_run f n xs" and "is_run f n ys"
  shows "length xs \<le> length ys"
  using assms by (metis is_run_def not_le option.distinct(1))

lemma is_run_unique:
  assumes "is_run f n xs" and "is_run f n ys"
  shows "xs = ys"
proof (rule nth_equalityI)
  show len: "length xs = length ys"
    using assms is_run_length_le by (metis order_antisym)
  show "xs ! i = ys ! i" if "i < length xs" for i
    using assms that len unfolding is_run_def by (metis option.inject)
qed

lemma is_run_append:
  assumes "\<forall>i < length xs. f (n + i) = Some (xs ! i)" and "is_run f (n + length xs) ys"
  shows "is_run f n (xs @ ys)"
proof -
  have "f (n + i) = Some ((xs @ ys) ! i)" if "i < length xs + length ys" for i
  proof (cases "i < length xs")
    case True
    with assms(1) show ?thesis by (simp add: nth_append)
  next
    case False
    with that have "i - length xs < length ys" by simp
    with assms(2) have "f (n + length xs + (i - length xs)) = Some (ys ! (i - length xs))"
      by (simp add: is_run_def)
    with False show ?thesis by (simp add: nth_append)
  qed
  with assms(2) show ?thesis by (simp add: is_run_def add.assoc)
qed

lemma first_copy_None_iff: "first_copy ps n = None \<longleftrightarrow> n \<notin> (\<lambda>p. unat (seq p)) ` set ps"
  by (auto simp: first_copy_def find_None_iff)

lemma first_copy_snoc:
  "first_copy (ps @ [p]) n = (case first_copy ps n of
     Some q \<Rightarrow> Some q | None \<Rightarrow> if unat (seq p) = n then Some p else None)"
  by (induction ps) (auto simp: first_copy_def)

lemma is_run_in_order_prefix: "is_run (first_copy ps) 0 (in_order_prefix ps)"
proof -
  let ?xs = "map (first_copy ps) [0..<length ps]"
  let ?n = "length (takeWhile (\<lambda>x. x \<noteq> None) ?xs)"
  have len: "?n \<le> length ps"
    using length_takeWhile_le [of _ ?xs] by simp
  have nth: "takeWhile (\<lambda>x. x \<noteq> None) ?xs ! i = first_copy ps i" if "i < ?n" for i
    using takeWhile_nth [OF that] that len by simp
  have some: "first_copy ps i \<noteq> None" if "i < ?n" for i
    using nth_mem [OF that] set_takeWhileD [of _ "\<lambda>x. x \<noteq> None" ?xs]
    unfolding nth [OF that] by blast
  have "first_copy ps ?n = None"
  proof (cases "?n < length ps")
    case True
    then show ?thesis
      using nth_length_takeWhile [of "\<lambda>x. x \<noteq> None" ?xs] by simp
  next
    case False
    with len have n: "?n = length ps" by simp
    let ?num = "\<lambda>p. unat (seq p)"
    have "{0..<length ps} \<subseteq> ?num ` set ps"
      using some n by (auto simp: first_copy_None_iff)
    moreover have "card (?num ` set ps) \<le> length ps"
      using card_image_le [of "set ps" ?num] card_length [of ps] by simp
    ultimately have "{0..<length ps} = ?num ` set ps"
      by (intro card_seteq) simp_all
    then have "?num ` set ps = {0..<length ps}" by (rule sym)
    then show ?thesis unfolding first_copy_None_iff n by simp
  qed
  then show ?thesis
    using some nth by (auto simp: is_run_def in_order_prefix_def)
qed

text \<open>The queue as a partial function on the numbers, and the pending packets as its run.\<close>

definition queued :: "sequencer \<Rightarrow> nat \<Rightarrow> packet option" where
  "queued s n = (if n < 2 ^ 64 then bt_lookup (packet_queue s) (of_nat n) else None)"

lemma queued_unat: "queued s (unat k) = bt_lookup (packet_queue s) k"
  using unat_u64_bound [of k] by (simp add: queued_def)

lemma queued_eqI:
  assumes "\<And>k. bt_lookup (packet_queue s) k = f (unat k)" and "\<And>n. 2 ^ 64 \<le> n \<Longrightarrow> f n = None"
  shows "queued s = f"
  using assms unat_of_nat_u64 by (auto simp: queued_def fun_eq_iff not_less)

lemma queued_bound: "2 ^ 64 \<le> n \<Longrightarrow> queued s n = None"
  by (simp add: queued_def)

lemma unat_ne_bound: "2 ^ 64 \<le> n \<Longrightarrow> n \<noteq> unat (k :: u64)"
  using unat_u64_bound [of k] by linarith

lemma is_run_pending:
  assumes "seq_inv s"
  shows "is_run (queued s) (unat (next_seq s)) (pending s)"
proof -
  have "queued s (unat (next_seq s) + i) = Some (pending s ! i)" if "i < length (pending s)" for i
    using pending_lookup [OF assms nth_mem [OF that]]
    by (simp flip: unat_seq_pending_nth [OF assms that] add: queued_unat)
  moreover have "queued s (unat (next_seq s) + length (pending s)) = None"
  proof (cases "unat (next_seq s) + length (pending s) < 2 ^ 64")
    case True
    define t where "t = drained (\<lambda>_. 0) s"
    have "\<not> have_next_packet t" and inv: "seq_inv t"
      by (simp_all add: t_def seq_inv_drained assms)
    then have none: "bt_lookup (packet_queue t) (next_seq t) = None"
      by (auto simp: have_next_packet_iff)
    have next_t: "next_seq t = next_seq s + of_nat (length (pending s))"
      by (simp add: t_def next_seq_drained)
    with True have num: "unat (next_seq t) = unat (next_seq s) + length (pending s)"
      by (simp add: unat_of_nat_u64 unat_add_u64)
    have "next_seq t \<notin> seq ` set (pending s)"
      using unat_seq_pending_nth [OF assms] num by (auto simp: in_set_conv_nth)
    with none have "bt_lookup (packet_queue s) (next_seq t) = None"
      by (simp add: t_def lookup_drained [OF assms])
    then show ?thesis by (simp flip: num add: queued_unat)
  next
    case False
    then show ?thesis by (simp add: queued_def)
  qed
  ultimately show ?thesis by (simp add: is_run_def)
qed

text \<open>After some arrivals at a new sequencer: the number it waits for is the length of the in-order
  prefix, and it holds the first copies from there on.\<close>

definition caught_up :: "packet list \<Rightarrow> sequencer \<Rightarrow> bool" where
  "caught_up ps s \<longleftrightarrow> seq_inv s \<and> unat (next_seq s) = length (in_order_prefix ps) \<and>
     queued s = (\<lambda>n. if length (in_order_prefix ps) \<le> n then first_copy ps n else None)"

lemma first_copy_bound: "2 ^ 64 \<le> n \<Longrightarrow> first_copy ps n = None"
proof -
  assume n: "2 ^ 64 \<le> n"
  have "unat (seq p) \<noteq> n" for p
    using n unat_u64_bound [of "seq p"] by linarith
  then show ?thesis by (auto simp: first_copy_None_iff)
qed

lemma caught_up_insert:
  assumes "caught_up ps s"
  shows "queued (insert_packet p s) =
    (\<lambda>n. if length (in_order_prefix ps) \<le> n then first_copy (ps @ [p]) n else None)"
proof (rule queued_eqI)
  fix k
  let ?N = "length (in_order_prefix ps)"
  have q: "bt_lookup (packet_queue s) k' = (if ?N \<le> unat k' then first_copy ps (unat k') else None)" for k'
    using assms by (simp add: caught_up_def flip: queued_unat)
  have "next_seq s \<le> seq p \<longleftrightarrow> ?N \<le> unat (seq p)"
    using assms by (simp add: caught_up_def word_le_nat_alt)
  then show "bt_lookup (packet_queue (insert_packet p s)) k =
      (if ?N \<le> unat k then first_copy (ps @ [p]) (unat k) else None)"
    by (auto simp: insert_packet_def bt.lookup_or_insert q first_copy_snoc word_unat_eq_iff
        split: option.splits)
next
  fix n :: nat assume "2 ^ 64 \<le> n"
  then show "(if length (in_order_prefix ps) \<le> n then first_copy (ps @ [p]) n else None) = None"
    by (simp add: first_copy_bound)
qed

lemma seq_in_pending_iff:
  assumes "seq_inv s"
  shows "k \<in> seq ` set (pending s) \<longleftrightarrow>
    unat (next_seq s) \<le> unat k \<and> unat k < unat (next_seq s) + length (pending s)" (is "?L \<longleftrightarrow> ?R")
proof
  assume ?L
  then show ?R using unat_seq_pending_nth [OF assms] by (auto simp: in_set_conv_nth)
next
  assume R: ?R
  let ?i = "unat k - unat (next_seq s)"
  from R have i: "?i < length (pending s)" and k: "unat (next_seq s) + ?i = unat k" by auto
  have "unat (seq (pending s ! ?i)) = unat k"
    using unat_seq_pending_nth [OF assms i] k by simp
  then have "seq (pending s ! ?i) = k" by (simp add: word_unat_eq_iff)
  with i show ?L by (metis image_eqI nth_mem)
qed

lemma length_in_order_prefix: "length (in_order_prefix ps) \<le> length ps"
  unfolding in_order_prefix_def
  using length_takeWhile_le [of "\<lambda>x. x \<noteq> None" "map (first_copy ps) [0..<length ps]"] by simp

lemma caught_up_new: "caught_up [] (sequencer_new d now)"
  using seq_inv_new [of d now]
  by (simp add: caught_up_def in_order_prefix_def queued_def fun_eq_iff first_copy_def)
    (simp add: sequencer_new_def bt.lookup_empty)

lemma in_order_prefix_step:
  assumes "caught_up ps s"
  shows "in_order_prefix (ps @ [p]) = in_order_prefix ps @ pending (insert_packet p s)"
proof -
  let ?s1 = "insert_packet p s" and ?N = "length (in_order_prefix ps)"
  have inv: "seq_inv ?s1" and nxt: "unat (next_seq ?s1) = ?N"
    using assms by (simp_all add: caught_up_def seq_inv_insert)
  from is_run_pending [OF inv] have "is_run (first_copy (ps @ [p])) ?N (pending ?s1)"
    unfolding nxt caught_up_insert [OF assms] by (simp add: is_run_def)
  moreover have "\<forall>i < ?N. first_copy (ps @ [p]) (0 + i) = Some (in_order_prefix ps ! i)"
    using is_run_in_order_prefix [of ps] by (simp add: is_run_def first_copy_snoc)
  ultimately have "is_run (first_copy (ps @ [p])) 0 (in_order_prefix ps @ pending ?s1)"
    by (intro is_run_append) simp_all
  with is_run_in_order_prefix show ?thesis by (rule is_run_unique)
qed

lemma caught_up_step:
  assumes "caught_up ps s" and "length (ps @ [p]) < 2 ^ 64"
  shows "caught_up (ps @ [p]) (drained ts (insert_packet p s))"
proof -
  let ?s1 = "insert_packet p s" and ?N = "length (in_order_prefix ps)"
  let ?s2 = "drained ts ?s1" and ?M = "length (in_order_prefix (ps @ [p]))"
  have inv: "seq_inv ?s1" and nxt: "unat (next_seq ?s1) = ?N"
    using assms by (simp_all add: caught_up_def seq_inv_insert)
  have M: "?M = ?N + length (pending ?s1)"
    by (simp add: in_order_prefix_step [OF assms(1)])
  have "?M < 2 ^ 64"
    using length_in_order_prefix [of "ps @ [p]"] assms(2) by linarith
  then have next2: "unat (next_seq ?s2) = ?M"
    using nxt M by (simp add: next_seq_drained unat_of_nat_u64 unat_add_u64)
  have "queued ?s2 = (\<lambda>n. if ?M \<le> n then first_copy (ps @ [p]) n else None)"
  proof (rule queued_eqI)
    fix k
    have "bt_lookup (packet_queue ?s1) k =
        (if ?N \<le> unat k then first_copy (ps @ [p]) (unat k) else None)"
      by (simp flip: queued_unat add: caught_up_insert [OF assms(1)])
    then show "bt_lookup (packet_queue ?s2) k =
        (if ?M \<le> unat k then first_copy (ps @ [p]) (unat k) else None)"
      using M by (auto simp: lookup_drained [OF inv] seq_in_pending_iff [OF inv] nxt [simplified])
  qed (simp add: first_copy_bound)
  with next2 show ?thesis
    by (simp add: caught_up_def seq_inv_drained inv)
qed

lemma run_events_append:
  "run_events step (es @ es') s =
    (let (ds, s') = run_events step es s; (ds', s'') = run_events step es' s' in (ds @ ds', s''))"
  by (induction es arbitrary: s) (simp_all add: Let_def case_prod_beta)

lemma seq_run_arrivals:
  assumes "length as < 2 ^ 64"
  shows "fst (seq_run (map (\<lambda>(p, ts). Arrive p ts) as) (sequencer_new d now)) =
      in_order_prefix (map fst as) \<and>
    caught_up (map fst as) (snd (seq_run (map (\<lambda>(p, ts). Arrive p ts) as) (sequencer_new d now)))"
  using assms
proof (induction as rule: rev_induct)
  case Nil
  then show ?case by (simp add: caught_up_new) (simp add: in_order_prefix_def)
next
  case (snoc a as)
  obtain p ts where a: "a = (p, ts)" by (cases a)
  define r where "r = seq_run (map (\<lambda>(p, ts). Arrive p ts) as) (sequencer_new d now)"
  have IH: "fst r = in_order_prefix (map fst as)" "caught_up (map fst as) (snd r)"
    using snoc by (simp_all add: r_def)
  have "seq_run (map (\<lambda>(p, ts). Arrive p ts) (as @ [a])) (sequencer_new d now) =
      (fst r @ pending (insert_packet p (snd r)), drained ts (insert_packet p (snd r)))"
    by (simp add: a r_def run_events_append Let_def case_prod_beta)
  with IH snoc.prems a show ?case
    using caught_up_step [OF IH(2), of p ts] by (simp add: in_order_prefix_step [OF IH(2)])
qed

section \<open>Flushing\<close>

text \<open>Each expiry of the deadline delivers at least the oldest packet, so as many expiries as there
  are queued packets empty the queue, in order.\<close>

lemma drained_entries:
  "map snd (bt_entries (packet_queue s)) =
    pending s @ map snd (bt_entries (packet_queue (drained ts s)))"
proof (induction ts s rule: drain_induct)
  case (turn ts s pkt q s')
  then have "bt_entries (packet_queue s) = (next_seq s, pkt) # bt_entries q"
    by (auto simp: bt_pop_first_def bt_tail.rep_eq split: list.splits)
  with turn show ?case by simp
qed simp

text \<open>The packet that an empty sequencer waits for is delivered at once.\<close>

lemma seq_step_in_order:
  assumes "get_queue_length s = 0" and "seq p = next_seq s"
  shows "fst (seq_step (Arrive p ts) s) = [p]"
    and "get_queue_length (snd (seq_step (Arrive p ts) s)) = 0"
    and "next_seq (snd (seq_step (Arrive p ts) s)) = next_seq s + 1"
proof -
  have e: "bt_entries (packet_queue (insert_packet p s)) = [(next_seq s, p)]"
    using assms by (simp add: insert_packet_def bt_or_insert.rep_eq get_queue_length_def bt_len_def)
  then have p: "pending (insert_packet p s) = [p]" by (simp add: pending_def)
  then show "fst (seq_step (Arrive p ts) s) = [p]" by (simp add: Let_def)
  show "next_seq (snd (seq_step (Arrive p ts) s)) = next_seq s + 1"
    using p by (simp add: Let_def next_seq_drained)
  have "[p] = [p] @ map snd (bt_entries (packet_queue (drained ts (insert_packet p s))))"
    using drained_entries [of "insert_packet p s" ts] e p by simp
  then show "get_queue_length (snd (seq_step (Arrive p ts) s)) = 0"
    by (simp add: Let_def get_queue_length_def bt_len_def)
qed

lemma expire_delivers:
  assumes "get_queue_length s \<noteq> 0"
  shows "fst (seq_step (Expire ts) s) \<noteq> []"
  using assms
  by (auto simp: advance_queue_eq get_queue_length_def bt_len_def bt_first_def pending_def
      split: list.splits)

lemma expire_entries:
  "map snd (bt_entries (packet_queue s)) =
    fst (seq_step (Expire ts) s) @ map snd (bt_entries (packet_queue (snd (seq_step (Expire ts) s))))"
  using drained_entries [of "projr (advance_queue s)" ts]
  by (auto simp: advance_queue_eq split: option.splits)

lemma expire_length:
  "get_queue_length (snd (seq_step (Expire ts) s)) =
    get_queue_length s - length (fst (seq_step (Expire ts) s))"
  using arg_cong [OF expire_entries [of s ts], of length]
  by (simp add: get_queue_length_def bt_len_def)

lemma flush:
  "get_queue_length s \<le> n \<Longrightarrow>
    fst (seq_run (replicate n (Expire ts)) s) = map snd (bt_entries (packet_queue s)) \<and>
    get_queue_length (snd (seq_run (replicate n (Expire ts)) s)) = 0"
proof (induction n arbitrary: s)
  case 0
  then show ?case by (simp add: get_queue_length_def bt_len_def)
next
  case (Suc n)
  let ?r = "seq_step (Expire ts) s"
  have "get_queue_length (snd ?r) \<le> n"
    using Suc.prems expire_length [of ts s] expire_delivers [of s ts]
    by (cases "get_queue_length s = 0") (simp_all add: neq_Nil_conv, force)
  from Suc.IH [OF this] expire_entries [of s ts] show ?case
    by (simp add: Let_def case_prod_beta)
qed

section \<open>The abstract reorder buffer\<close>

text \<open>
  The specification of the component: a number to deliver next and a finite partial function from
  numbers to waiting packets. \<open>abs_seq\<close> reads a sequencer that way.
\<close>

type_synonym rbuf = "nat \<times> (nat \<Rightarrow> packet option)"

definition abs_seq :: "sequencer \<Rightarrow> rbuf" where
  "abs_seq s = (unat (next_seq s), queued s)"

fun rbuf_insert :: "packet \<Rightarrow> rbuf \<Rightarrow> rbuf" where
  "rbuf_insert p (n, f) =
     (n, if n \<le> unat (seq p) \<and> f (unat (seq p)) = None then f(unat (seq p) \<mapsto> p) else f)"

fun rbuf_take :: "rbuf \<Rightarrow> packet option \<times> rbuf" where
  "rbuf_take (n, f) = (case f n of None \<Rightarrow> (None, (n, f)) | Some p \<Rightarrow> (Some p, (Suc n, f(n := None))))"

fun rbuf_skip :: "rbuf \<Rightarrow> rbuf" where
  "rbuf_skip (n, f) = (if f = Map.empty then n else Min (dom f), f)"

lemma dom_queued: "dom (queued s) = unat ` dom (bt_lookup (packet_queue s))"
proof -
  have "n \<in> unat ` dom (bt_lookup (packet_queue s))" if "n \<in> dom (queued s)" for n
  proof -
    from that have "n < 2 ^ 64" and "bt_lookup (packet_queue s) (of_nat n) \<noteq> None"
      by (auto simp: queued_def split: if_splits)
    then show ?thesis using unat_of_nat_u64 by (metis domIff image_eqI)
  qed
  then show ?thesis by (auto simp: queued_unat)
qed

lemma abs_insert: "abs_seq (insert_packet p s) = rbuf_insert p (abs_seq s)"
proof -
  have "queued (insert_packet p s) = snd (rbuf_insert p (abs_seq s))"
  proof (rule queued_eqI)
    show "bt_lookup (packet_queue (insert_packet p s)) k = snd (rbuf_insert p (abs_seq s)) (unat k)"
      for k
      by (simp add: abs_seq_def queued_unat insert_packet_def bt.lookup_or_insert word_le_nat_alt
          word_unat_eq_iff [symmetric])
    show "snd (rbuf_insert p (abs_seq s)) n = None" if "2 ^ 64 \<le> n" for n
      using queued_bound [OF that] unat_ne_bound [OF that] by (simp add: abs_seq_def)
  qed
  then show ?thesis by (simp add: abs_seq_def)
qed

lemma abs_take:
  assumes "seq_inv s" and "next_seq s \<noteq> u64_max" and "get_next_packet now s = Inr (r, s')"
  shows "rbuf_take (abs_seq s) = (r, abs_seq s')"
proof (cases "have_next_packet s")
  case True
  then obtain pkt q where q: "bt_pop_first (packet_queue s) = Some ((next_seq s, pkt), q)"
    and lk: "bt_lookup (packet_queue s) (next_seq s) = Some pkt"
    and "\<And>now. get_next_packet now s = Inr (Some pkt,
      s\<lparr>next_seq := next_seq s + 1, packet_queue := q, last_update := now\<rparr>)"
    by (rule get_next_packet_next) blast
  with assms(3) have r: "r = Some pkt"
    and s': "s' = s\<lparr>next_seq := next_seq s + 1, packet_queue := q, last_update := now\<rparr>" by auto
  have "queued s' = (queued s)(unat (next_seq s) := None)"
    using bt.pop_Some [OF q]
    by (intro queued_eqI) (simp_all add: s' queued_unat queued_bound word_unat_eq_iff [symmetric])
  with lk r s' assms(2) show ?thesis
    by (simp add: abs_seq_def queued_unat unat_succ_u64)
next
  case False
  with assms(1,3) show ?thesis
    by (auto simp: abs_seq_def queued_unat have_next_packet_iff get_next_packet_none
        split: option.splits)
qed

lemma abs_skip:
  assumes "advance_queue s = Inr s'"
  shows "abs_seq s' = rbuf_skip (abs_seq s)"
proof (cases "bt_first (packet_queue s)")
  case None
  then have "queued s = Map.empty"
    by (simp add: queued_def fun_eq_iff bt.first_None)
  with None assms show ?thesis by (simp add: advance_queue_eq abs_seq_def)
next
  case (Some e)
  then obtain k v where f: "bt_first (packet_queue s) = Some (k, v)" by (cases e) simp
  have "Min (dom (queued s)) = unat k"
    using bt.first_Some [OF f] bt.finite_dom [of "packet_queue s"]
    by (intro Min_eqI) (auto simp: dom_queued word_le_nat_alt)
  moreover have "queued s \<noteq> Map.empty"
    using bt.first_Some [OF f] queued_unat [of s k] by auto
  ultimately show ?thesis
    using assms f by (auto simp: advance_queue_eq abs_seq_def queued_def)
qed

section \<open>The unit tests\<close>

text \<open>The two tests of the module: the packets they insert, and their reading loop
  (\<open>get_next_packet().unwrap()\<close> once per expected number).\<close>

definition test_packet :: "u64 \<Rightarrow> packet" where
  "test_packet n = \<lparr>seq = n, peer_id = 0, bytes = []\<rparr>"

fun take_packets :: "system_time \<Rightarrow> nat \<Rightarrow> sequencer \<Rightarrow> panic + u64 list \<times> sequencer" where
  "take_packets now 0 s = Inr ([], s)"
| "take_packets now (Suc n) s =
     (case get_next_packet now s of
        Inl p \<Rightarrow> Inl p
      | Inr (r, s1) \<Rightarrow> (case unwrap ''get_next_packet'' r of
          Inl p \<Rightarrow> Inl p
        | Inr pkt \<Rightarrow> (case take_packets now n s1 of
            Inl p \<Rightarrow> Inl p
          | Inr (ns, s2) \<Rightarrow> Inr (seq pkt # ns, s2))))"

definition unordered_insert :: "system_time \<Rightarrow> panic + u64 list \<times> sequencer" where
  "unordered_insert now = take_packets now 4
     (fold insert_packet (map test_packet [0, 3, 1, 2]) (sequencer_new (from_millis 1) now))"

definition unordered_insert_duplicates :: "system_time \<Rightarrow> panic + u64 list \<times> sequencer" where
  "unordered_insert_duplicates now = take_packets now 4
     (fold insert_packet (map test_packet [0, 3, 3, 1, 2]) (sequencer_new (from_millis 1) now))"

section \<open>Properties\<close>

text \<open>A short life to evaluate: reordered, duplicated, with a gap that expires.\<close>

definition demo_events :: "seq_event list" where
  "demo_events =
     [Arrive (test_packet 1) (\<lambda>_. 0), Arrive (test_packet 0) (\<lambda>_. 0), Arrive (test_packet 0) (\<lambda>_. 0),
      Arrive (test_packet 5) (\<lambda>_. 0), Expire (\<lambda>_. 0), Arrive (test_packet 3) (\<lambda>_. 0)]"

text \<open>C4. Over any life of a sequencer in which the number \<open>2^64 - 1\<close> does not arrive (any interleaving of
  arrivals, duplicates, reordered and late packets, and expiries of the deadline) the numbers it
  delivers strictly increase: in order, and no number twice. After that number the counter wraps,
  and old numbers are accepted again.\<close>

theorem sequencer_in_order_at_most_once:
  assumes "list_all event_below_top es"
  shows "sorted_wrt (<) (map seq (fst (seq_run es (sequencer_new d now))))"
proof -
  have "seq_inv (sequencer_new d now) \<and> below_top (sequencer_new d now)"
    using seq_inv_new by (simp add: below_top_def sequencer_new_def bt_new.rep_eq)
  from sq.run_sorted [OF this assms] show ?thesis
    by (simp add: sorted_wrt_map word_less_nat_alt)
qed

theorem sequencer_in_order_at_most_once_witness:
  "list_all event_below_top demo_events \<and>
   map seq (fst (seq_run demo_events (sequencer_new 3 0))) = [0, 1, 5] \<and>
   sorted_wrt (<) (map seq (fst (seq_run demo_events (sequencer_new 3 0))))"
proof -
  have h: "list_all event_below_top demo_events" by code_simp
  have "map seq (fst (seq_run demo_events (sequencer_new 3 0))) = [0, 1, 5]" by code_simp
  with h sequencer_in_order_at_most_once [OF h, of 3 0] show ?thesis by blast
qed

text \<open>C5. As long as no deadline expires, a new sequencer delivers exactly the in-order prefix of what
  arrived: for every number from 0 up to the first one missing its first copy, once, in order,
  however the arrivals were reordered and duplicated.\<close>

theorem sequencer_exact_delivery:
  assumes "length as < 2 ^ 64"
  shows "fst (seq_run (map (\<lambda>(p, ts). Arrive p ts) as) (sequencer_new d now)) =
    in_order_prefix (map fst as)"
  using seq_run_arrivals [OF assms] by blast

theorem sequencer_exact_delivery_witness:
  "fst (seq_run (map (\<lambda>(p, ts). Arrive p ts)
       (map (\<lambda>n. (test_packet n, \<lambda>_. 0)) [2, 0, 0, 1, 4])) (sequencer_new 3 0)) =
     map test_packet [0, 1, 2]"
proof -
  have h: "length (map (\<lambda>n. (test_packet n, \<lambda>_ :: nat. 0 :: system_time)) [2, 0, 0, 1, 4]) < 2 ^ 64"
    by simp
  have "in_order_prefix (map fst (map (\<lambda>n. (test_packet n, \<lambda>_ :: nat. 0 :: system_time))
      [2, 0, 0, 1, 4])) = map test_packet [0, 1, 2]"
    by code_simp
  with sequencer_exact_delivery [OF h, of 3 0] show ?thesis by simp
qed

text \<open>C19. No accepted packet is lost: a packet that is not older than \<open>next_seq\<close> when it arrives, and whose
  number is not taken, is the packet that is delivered or still queued under its number, whatever
  arrives and expires afterwards; and so is every packet that was queued before.\<close>

theorem sequencer_nothing_lost:
  assumes "seq_inv s" and "bt_lookup (packet_queue s) k = Some q \<or>
      q = p \<and> k = seq p \<and> next_seq s \<le> seq p \<and> bt_lookup (packet_queue s) (seq p) = None"
  shows "q \<in> set (fst (seq_run (Arrive p ts # es) s)) \<or>
    bt_lookup (packet_queue (snd (seq_run (Arrive p ts # es) s))) k = Some q"
proof -
  let ?r = "seq_step (Arrive p ts) s" and ?s1 = "insert_packet p s"
  have inv1: "seq_inv ?s1" and inv: "seq_inv (snd ?r)"
    using assms(1) by (simp_all add: seq_inv_insert kept.keeps_inv del: seq_step.simps)
  have q1: "bt_lookup (packet_queue ?s1) k = Some q"
    using assms(2) by (auto simp: insert_packet_def bt.lookup_or_insert)
  then have k: "k = seq q" using seq_invD [OF inv1] by auto
  have "q \<in> set (fst ?r) \<union> queued_packets (snd ?r)"
    using q1 queued_drained [OF inv1, of ts] by (auto simp: Let_def queued_packets_def ran_def)
  with kept.run_stored [OF inv, of es]
  have "q \<in> set (fst (seq_run (Arrive p ts # es) s)) \<union> queued_packets (snd (seq_run (Arrive p ts # es) s))"
    by (auto simp del: seq_step.simps simp add: Let_def case_prod_beta)
  moreover have "seq_inv (snd (seq_run (Arrive p ts # es) s))"
    using assms(1) by (rule seq_inv_run)
  ultimately show ?thesis
    using k seq_invD by (fastforce simp: queued_packets_def ran_def simp del: run_events.simps)
qed

theorem sequencer_nothing_lost_witness:
  "test_packet 2 \<in> set (fst (seq_run (Arrive (test_packet 2) (\<lambda>_. 0) # demo_events) (sequencer_new 3 0))) \<or>
   bt_lookup (packet_queue (snd (seq_run (Arrive (test_packet 2) (\<lambda>_. 0) # demo_events) (sequencer_new 3 0)))) 2 =
     Some (test_packet 2)"
  by (rule sequencer_nothing_lost) code_simp+

text \<open>C20. A stalled queue empties: after as many expiries as there are queued packets, everything
  that was queued has been delivered, in the order of the numbers, and the queue is empty.\<close>

theorem sequencer_flush:
  assumes "get_queue_length s \<le> n"
  shows "fst (seq_run (replicate n (Expire ts)) s) = map snd (bt_entries (packet_queue s)) \<and>
    get_queue_length (snd (seq_run (replicate n (Expire ts)) s)) = 0"
  using assms by (rule flush)

theorem sequencer_flush_witness:
  "map seq (fst (seq_run (replicate 2 (Expire (\<lambda>_. 0)))
     (fold insert_packet (map test_packet [7, 4]) (sequencer_new 3 0)))) = [4, 7]"
proof -
  let ?s = "fold insert_packet (map test_packet [7, 4]) (sequencer_new 3 0)"
  have h: "get_queue_length ?s \<le> 2" by code_simp
  have "map seq (map snd (bt_entries (packet_queue ?s))) = [4, 7]" by code_simp
  with sequencer_flush [OF h, of "\<lambda>_. 0"] show ?thesis by simp
qed

text \<open>C21. The loop that drains a sequencer returns, and does what a \<open>for\<close> loop over the pending
  packets does: same effect of the body, same panics; if no body panics the sequencer is left
  drained, with \<open>next_seq\<close> past the pending packets.\<close>

theorem drain_loop_is_for_each:
  "snd (final (while_next body ts s m)) = final (for_each body (pending s) m) \<and>
   is_running (while_next body ts s m) = is_running (for_each body (pending s) m) \<and>
   (is_running (while_next body ts s m) \<longrightarrow>
      fst (final (while_next body ts s m)) = drained ts s \<and>
      next_seq (drained ts s) = next_seq s + of_nat (length (pending s)) \<and>
      \<not> have_next_packet (drained ts s))"
  using while_next_for_each [of body ts s m] by (auto simp: next_seq_drained)

theorem drain_loop_is_for_each_witness:
  "is_running (while_next (\<lambda>p ns. Running (ns @ [seq p])) (\<lambda>_. 0)
     (fold insert_packet (map test_packet [1, 0, 5]) (sequencer_new 3 0)) []) \<and>
   next_seq (drained (\<lambda>_. 0) (fold insert_packet (map test_packet [1, 0, 5]) (sequencer_new 3 0))) = 2"
proof -
  let ?s = "fold insert_packet (map test_packet [1, 0, 5]) (sequencer_new 3 0)"
  have "is_running (while_next (\<lambda>p ns. Running (ns @ [seq p])) (\<lambda>_. 0) ?s [])" by code_simp
  moreover have "next_seq ?s + of_nat (length (pending ?s)) = 2" by code_simp
  ultimately show ?thesis
    using drain_loop_is_for_each [of "\<lambda>p ns. Running (ns @ [seq p])" "\<lambda>_. 0" ?s "[]"] by simp
qed

text \<open>C23. Every operation keeps the invariant: packets are queued under their own number, none older
  than \<open>next_seq\<close>. This holds across the wrap-around too.\<close>

theorem sequencer_invariant:
  "seq_inv (sequencer_new d now) \<and>
   (seq_inv s \<longrightarrow> seq_inv (insert_packet p s)) \<and>
   (seq_inv s \<longrightarrow> (\<forall>s'. advance_queue s = Inr s' \<longrightarrow> seq_inv s')) \<and>
   (seq_inv s \<longrightarrow> (\<forall>r s'. get_next_packet now s = Inr (r, s') \<longrightarrow> seq_inv s')) \<and>
   (seq_inv s \<longrightarrow> seq_inv (fst (final (while_next body ts s m))))"
  by (auto intro: seq_inv_new seq_inv_insert seq_inv_advance seq_inv_get_next seq_inv_while_next)

theorem sequencer_invariant_witness:
  "seq_inv (insert_packet (test_packet 4) (sequencer_new 3 0)) \<and>
   seq_inv (projr (advance_queue (insert_packet (test_packet 4) (sequencer_new 3 0))))"
proof -
  let ?s = "insert_packet (test_packet 4) (sequencer_new 3 0)"
  have h: "seq_inv ?s" by code_simp
  have "advance_queue ?s = Inr (projr (advance_queue ?s))" by (simp add: advance_queue_eq)
  with h show ?thesis
    using sequencer_invariant [of 3 0 ?s "test_packet 4" "\<lambda>_ u. Running u" "\<lambda>_. 0" "()"] by blast
qed

text \<open>C22. The sequencer implements the abstract reorder buffer: \<open>insert_packet\<close>, \<open>get_next_packet\<close>
  and \<open>advance_queue\<close> commute with the abstraction, and neither of the last two ever panics.\<close>

theorem sequencer_refines_rbuf:
  assumes "seq_inv s" and "next_seq s \<noteq> u64_max"
  shows "abs_seq (insert_packet p s) = rbuf_insert p (abs_seq s)
    \<and> (\<exists>r s'. get_next_packet now s = Inr (r, s') \<and> rbuf_take (abs_seq s) = (r, abs_seq s'))
    \<and> (\<exists>s'. advance_queue s = Inr s' \<and> abs_seq s' = rbuf_skip (abs_seq s))"
proof -
  have "\<exists>r s'. get_next_packet now s = Inr (r, s')"
    using get_next_packet_none [of s now] by (cases "have_next_packet s") (auto elim: get_next_packet_next)
  then show ?thesis
    using abs_take [OF assms] abs_skip [of s] abs_insert advance_queue_eq [of s] by blast
qed

theorem sequencer_refines_rbuf_witness:
  "\<exists>r s'. get_next_packet 9 (insert_packet (test_packet 0) (sequencer_new 3 0)) = Inr (r, s') \<and>
     rbuf_take (abs_seq (insert_packet (test_packet 0) (sequencer_new 3 0))) = (r, abs_seq s')"
proof -
  let ?s = "insert_packet (test_packet 0) (sequencer_new 3 0)"
  have h1: "seq_inv ?s" by code_simp
  have h2: "next_seq ?s \<noteq> u64_max" by code_simp
  show ?thesis using sequencer_refines_rbuf [OF h1 h2, of "test_packet 0" 9] by blast
qed

text \<open>C27. The counter wraps: delivering the packet numbered \<open>2^64 - 1\<close> leaves an empty queue that
  waits for number 0 again, so numbers already delivered are accepted a second time.\<close>

theorem sequencer_wraps_at_top:
  assumes "seq_inv s" and "next_seq s = u64_max" and "have_next_packet s"
  shows "\<exists>pkt s'. get_next_packet now s = Inr (Some pkt, s') \<and> seq pkt = u64_max \<and>
    next_seq s' = 0 \<and> get_queue_length s' = 0 \<and>
    bt_lookup (packet_queue (insert_packet p s')) (seq p) = Some p"
proof -
  from assms(3) obtain pkt q where q: "bt_pop_first (packet_queue s) = Some ((next_seq s, pkt), q)"
    and lk: "bt_lookup (packet_queue s) (next_seq s) = Some pkt"
    and eq: "\<And>now. get_next_packet now s = Inr (Some pkt,
      s\<lparr>next_seq := next_seq s + 1, packet_queue := q, last_update := now\<rparr>)"
    by (rule get_next_packet_next) blast
  have empty: "bt_lookup q = Map.empty"
    using bt.pop_later_keys [OF q] assms(2) by (metis domIff ext u64_le_max leD)
  then have "bt_len q = 0" by (simp add: bt.len_card)
  moreover have "seq pkt = u64_max" using seq_invD [OF assms(1) lk] assms(2) by simp
  ultimately show ?thesis
    using eq [of now] empty assms(2)
    by (simp add: get_queue_length_def insert_packet_def bt.lookup_or_insert)
qed

theorem sequencer_wraps_at_top_witness:
  "\<exists>pkt s'. get_next_packet 0
       (projr (advance_queue (insert_packet (test_packet u64_max) (sequencer_new 3 0)))) =
         Inr (Some pkt, s') \<and> seq pkt = u64_max \<and> next_seq s' = 0 \<and> get_queue_length s' = 0 \<and>
       bt_lookup (packet_queue (insert_packet (test_packet 0) s')) (seq (test_packet 0)) =
         Some (test_packet 0)"
  by (rule sequencer_wraps_at_top) code_simp+

text \<open>C24. Inserting a packet: a late one (below \<open>next_seq\<close>) and a second copy of a queued number
  change nothing; any other packet is queued under its number and nothing else changes.\<close>

theorem insert_packet_behaviour:
  "(seq p < next_seq s \<longrightarrow> insert_packet p s = s) \<and>
   (seq p \<in> dom (bt_lookup (packet_queue s)) \<longrightarrow> insert_packet p s = s) \<and>
   (next_seq s \<le> seq p \<and> seq p \<notin> dom (bt_lookup (packet_queue s)) \<longrightarrow>
      bt_lookup (packet_queue (insert_packet p s)) = (bt_lookup (packet_queue s))(seq p \<mapsto> p) \<and>
      get_queue_length (insert_packet p s) = Suc (get_queue_length s))"
proof -
  have "bt_or_insert (seq p) p (packet_queue s) = packet_queue s"
    if "seq p \<in> dom (bt_lookup (packet_queue s))"
    using that by (intro bt_lookup_ext) (auto simp: bt.or_insert_present)
  then have "insert_packet p s = s" if "seq p \<in> dom (bt_lookup (packet_queue s))"
    using that by (simp add: insert_packet_def)
  then show ?thesis
    by (auto simp: insert_packet_def bt.lookup_or_insert get_queue_length_def bt.len_card
        bt.dom_or_insert bt.finite_dom domIff)
qed

theorem insert_packet_behaviour_witness:
  "insert_packet (test_packet 4) (insert_packet (test_packet 4) (sequencer_new 3 0)) =
     insert_packet (test_packet 4) (sequencer_new 3 0) \<and>
   get_queue_length (insert_packet (test_packet 4) (sequencer_new 3 0)) = 1"
proof -
  let ?s = "insert_packet (test_packet 4) (sequencer_new 3 0)"
  have "seq (test_packet 4) \<in> dom (bt_lookup (packet_queue ?s))" by code_simp
  moreover have "get_queue_length ?s = 1" by code_simp
  ultimately show ?thesis using insert_packet_behaviour [of "test_packet 4" ?s] by blast
qed

text \<open>C26. The deadline runs from the last delivery, not from the arrival of the packet that waits.
  When nothing has been delivered for longer than the deadline, a packet that overtakes another one
  is due at once: the next tick delivers it, and the packet it overtook is then refused.\<close>

theorem idle_sequencer_does_not_wait:
  assumes "seq_inv s" and "get_queue_length s = 0"
    and "0 \<le> deadline s" and "last_update s + deadline s < now" and "next_seq s < seq p" and "seq r < seq p"
    and "seq p \<noteq> u64_max"
  shows "fst (seq_step (Arrive p ts) s) = [] \<and>
    is_deadline_exceeded now (snd (seq_step (Arrive p ts) s)) = Inr True \<and>
    (let t = snd (seq_step (Expire ts') (snd (seq_step (Arrive p ts) s))) in
       fst (seq_step (Expire ts') (snd (seq_step (Arrive p ts) s))) = [p] \<and> insert_packet r t = t)"
proof -
  let ?s1 = "insert_packet p s"
  have q: "bt_entries (packet_queue s) = []"
    using assms(2) by (simp add: get_queue_length_def bt_len_def)
  have s1: "?s1 = s\<lparr>packet_queue := bt_or_insert (seq p) p (packet_queue s)\<rparr>"
    and e1: "bt_entries (packet_queue ?s1) = [(seq p, p)]"
    using assms(5) q by (simp_all add: insert_packet_def bt_or_insert.rep_eq)
  have "\<not> have_next_packet ?s1" and p0: "pending ?s1 = []"
    using assms(5) e1 by (auto simp: have_next_packet_def bt_first_def pending_def)
  then have d0: "drained ts ?s1 = ?s1" by (simp add: drained_def)
  let ?s2 = "?s1\<lparr>next_seq := seq p\<rparr>"
  have adv: "advance_queue ?s1 = Inr ?s2"
    using e1 by (simp add: advance_queue_eq bt_first_def)
  have p2: "pending ?s2 = [p]"
    using e1 by (simp add: pending_def)
  have "seq_inv ?s2" using seq_inv_advance [OF seq_inv_insert [OF assms(1)] adv] .
  then have "next_seq (drained ts' ?s2) = seq p + 1"
    by (simp add: next_seq_drained p2)
  then have "seq r < next_seq (drained ts' ?s2)"
    using u64_lt_succ [OF assms(7)] assms(6) by simp
  then have late: "insert_packet r (drained ts' ?s2) = drained ts' ?s2"
    by (simp add: insert_packet_def)
  have "is_deadline_exceeded now ?s1 = Inr True"
    using assms(3,4) by (auto simp: is_deadline_exceeded_def duration_since_def)
  with p0 d0 adv p2 late show ?thesis by (simp add: Let_def)
qed

theorem idle_sequencer_does_not_wait_witness:
  "fst (seq_step (Expire (\<lambda>_. 10)) (snd (seq_step (Arrive (test_packet 1) (\<lambda>_. 10))
     (sequencer_new 3 0)))) = [test_packet 1]"
proof -
  let ?s = "sequencer_new 3 0"
  have h: "seq_inv ?s" "get_queue_length ?s = 0" "0 \<le> deadline ?s" "last_update ?s + deadline ?s < 10"
    "next_seq ?s < seq (test_packet 1)" "seq (test_packet 0) < seq (test_packet 1)"
    "seq (test_packet 1) \<noteq> u64_max"
    by code_simp+
  show ?thesis
    using idle_sequencer_does_not_wait [OF h, of "\<lambda>_. 10" "\<lambda>_. 10"] by (simp add: Let_def)
qed

text \<open>C25. A peer that restarts is not heard: once \<open>next_seq\<close> has passed its numbers, a sender that
  counts from 0 again has all its packets refused, and no expiry of the deadline changes that.
  Nothing resets a sequencer, so the silence lasts until the new numbers reach \<open>next_seq\<close>.\<close>

theorem restarted_sender_is_ignored:
  assumes "get_queue_length s = 0" and "list_all (arrives_only (\<lambda>p. seq p < next_seq s)) evs"
  shows "seq_run evs s = ([], s)"
  using assms(2)
proof (induction evs)
  case (Cons ev evs)
  have q: "bt_entries (packet_queue s) = []"
    using assms(1) by (simp add: get_queue_length_def bt_len_def)
  then have "\<not> have_next_packet s" and "pending s = []" and "advance_queue s = Inr s"
    by (simp_all add: have_next_packet_def bt_first_def pending_def advance_queue_eq)
  moreover have "insert_packet p s = s" if "seq p < next_seq s" for p
    using that by (simp add: insert_packet_def)
  ultimately have "seq_step ev s = ([], s)"
    using Cons.prems by (cases ev) (simp_all add: drained_def Let_def)
  with Cons show ?case by (simp add: Let_def)
qed simp

theorem restarted_sender_is_ignored_witness:
  "seq_run [Arrive (test_packet 0) (\<lambda>_. 9), Expire (\<lambda>_. 9), Arrive (test_packet 1) (\<lambda>_. 9)]
     (snd (seq_run (map (\<lambda>n. Arrive (test_packet n) (\<lambda>_. 0)) [0, 1, 2]) (sequencer_new 3 0))) =
   ([], snd (seq_run (map (\<lambda>n. Arrive (test_packet n) (\<lambda>_. 0)) [0, 1, 2]) (sequencer_new 3 0)))"
  by (rule restarted_sender_is_ignored) code_simp+

text \<open>The module's unit tests hold: both read the numbers 0 to 3 in order, and the second
  leaves an empty queue.\<close>

lemma sequencer_unit_tests:
  "(\<exists>s. unordered_insert 0 = Inr ([0, 1, 2, 3], s)) \<and>
   (\<exists>s. unordered_insert_duplicates 0 = Inr ([0, 1, 2, 3], s) \<and> get_queue_length s = 0)"
proof
  have "map_sum id fst (unordered_insert 0) = Inr [0, 1, 2, 3]" by code_simp
  then show "\<exists>s. unordered_insert 0 = Inr ([0, 1, 2, 3], s)"
    by (cases "unordered_insert 0") (simp_all, metis surjective_pairing)
  have "map_sum id (map_prod id get_queue_length) (unordered_insert_duplicates 0) =
      Inr ([0, 1, 2, 3], 0)" by code_simp
  then show "\<exists>s. unordered_insert_duplicates 0 = Inr ([0, 1, 2, 3], s) \<and> get_queue_length s = 0"
    by (cases "unordered_insert_duplicates 0") auto
qed

end
