(* ===== verification/Hash_Map.thy ===== *)
theory Hash_Map
  imports Mpconn_Prelude "HOL-Library.DAList" "HOL-Library.Multiset"
begin

text \<open>
  \<open>std::collections::HashMap\<close>: association lists with distinct keys. The order in which a hash map
  is iterated over is not specified by the standard library and differs between runs, so every
  iteration takes a \<open>hasher\<close>, an arbitrary ranking of the keys, and visits the entries by rank.
  Nothing is assumed of the ranking, and every permutation of the entries is the order of some
  ranking; a theorem that holds for all rankings holds for every iteration order.
\<close>

section \<open>The contract\<close>

text \<open>What the sources rely on: lookup after insert, lookup after \<open>retain\<close>, and that an iteration
  visits every key once.\<close>

locale hash_table =
  fixes new :: "'m"
    and get :: "'m \<Rightarrow> 'k \<Rightarrow> 'v option"
    and ins :: "'k \<Rightarrow> 'v \<Rightarrow> 'm \<Rightarrow> 'm"
    and retain :: "('k \<Rightarrow> 'v \<Rightarrow> bool) \<Rightarrow> 'm \<Rightarrow> 'm"
    and keys :: "('k \<Rightarrow> nat) \<Rightarrow> 'm \<Rightarrow> 'k list"
    and len :: "'m \<Rightarrow> nat"
  assumes get_new: "get new k = None"
    and get_ins: "get (ins k v m) = (get m)(k \<mapsto> v)"
    and get_retain: "get (retain P m) k =
      (case get m k of None \<Rightarrow> None | Some v \<Rightarrow> if P k v then Some v else None)"
    and set_keys: "set (keys h m) = dom (get m)"
    and distinct_keys: "distinct (keys h m)"
    and len_keys: "len m = length (keys h m)"
begin

lemma dom_new: "dom (get new) = {}"
  by (auto simp: get_new)

lemma dom_ins: "dom (get (ins k v m)) = insert k (dom (get m))"
  by (simp add: get_ins)

lemma dom_retain: "dom (get (retain P m)) = {k \<in> dom (get m). P k (the (get m k))}"
  by (auto simp: get_retain split: option.splits if_splits)

text \<open>Any two iterations over one table visit the same keys, in possibly different orders.\<close>

lemma keys_permutation: "mset (keys h m) = mset (keys h' m)"
  by (rule set_eq_iff_mset_eq_distinct [THEN iffD1])
    (simp_all add: distinct_keys set_keys)

lemma len_card: "len m = card (dom (get m))"
  using len_keys [of m undefined] distinct_card [OF distinct_keys [of undefined m]]
  by (simp add: set_keys)

lemma len_ins_new: "get m k = None \<Longrightarrow> len (ins k v m) = Suc (len m)"
proof -
  assume "get m k = None"
  moreover have "finite (dom (get m))"
    using set_keys [of undefined m] by (metis List.finite_set)
  ultimately show ?thesis
    by (simp add: len_card dom_ins domIff)
qed

lemma len_retain_le: "len (retain P m) \<le> len m"
proof -
  have "finite (dom (get m))"
    using set_keys [of undefined m] by (metis List.finite_set)
  then show ?thesis
    by (auto simp: len_card dom_retain intro: card_mono)
qed

end

section \<open>The type and its operations\<close>

type_synonym ('k, 'v) hash_map = "('k, 'v) DAList.alist"
type_synonym 'k hasher = "'k \<Rightarrow> nat"

definition hm_new :: "('k, 'v) hash_map" where
  "hm_new = DAList.empty"

definition hm_get :: "('k, 'v) hash_map \<Rightarrow> 'k \<Rightarrow> 'v option" where
  "hm_get m k = DAList.lookup m k"

definition hm_contains_key :: "('k, 'v) hash_map \<Rightarrow> 'k \<Rightarrow> bool" where
  "hm_contains_key m k = (case hm_get m k of None \<Rightarrow> False | Some _ \<Rightarrow> True)"

definition hm_insert :: "'k \<Rightarrow> 'v \<Rightarrow> ('k, 'v) hash_map \<Rightarrow> ('k, 'v) hash_map" where
  "hm_insert k v m = DAList.update k v m"

definition hm_retain :: "('k \<Rightarrow> 'v \<Rightarrow> bool) \<Rightarrow> ('k, 'v) hash_map \<Rightarrow> ('k, 'v) hash_map" where
  "hm_retain P m = DAList.filter (\<lambda>(k, v). P k v) m"

definition hm_iter :: "'k hasher \<Rightarrow> ('k, 'v) hash_map \<Rightarrow> ('k \<times> 'v) list" where
  "hm_iter h m = sort_key (h \<circ> fst) (DAList.impl_of m)"

definition hm_keys :: "'k hasher \<Rightarrow> ('k, 'v) hash_map \<Rightarrow> 'k list" where
  "hm_keys h m = map fst (hm_iter h m)"

definition hm_values :: "'k hasher \<Rightarrow> ('k, 'v) hash_map \<Rightarrow> 'v list" where
  "hm_values h m = map snd (hm_iter h m)"

definition hm_len :: "('k, 'v) hash_map \<Rightarrow> nat" where
  "hm_len m = length (DAList.impl_of m)"

text \<open>\<open>iter_mut\<close>: every value is replaced in place, the keys stay.\<close>

lift_definition hm_map_values ::
    "('k \<Rightarrow> 'v \<Rightarrow> 'v) \<Rightarrow> ('k, 'v) hash_map \<Rightarrow> ('k, 'v) hash_map"
  is "\<lambda>f es. map (\<lambda>(k, v). (k, f k v)) es"
  by (simp add: comp_def case_prod_beta)

text \<open>
  A closure that panics on some entry: \<open>retain\<close> and a loop over \<open>iter_mut\<close> visit every entry, so
  the call panics if the closure panics anywhere.
\<close>

fun first_panic :: "('k \<Rightarrow> 'v \<Rightarrow> panic + 'b) \<Rightarrow> ('k \<times> 'v) list \<Rightarrow> panic option" where
  "first_panic f [] = None"
| "first_panic f ((k, v) # es) = (case f k v of Inl p \<Rightarrow> Some p | Inr _ \<Rightarrow> first_panic f es)"

definition hm_try_retain ::
    "('k \<Rightarrow> 'v \<Rightarrow> panic + bool) \<Rightarrow> ('k, 'v) hash_map \<Rightarrow> panic + ('k, 'v) hash_map" where
  "hm_try_retain f m = (case first_panic f (DAList.impl_of m) of
     Some p \<Rightarrow> Inl p
   | None \<Rightarrow> Inr (hm_retain (\<lambda>k v. f k v = Inr True) m))"

definition hm_try_iter_mut ::
    "('k \<Rightarrow> 'v \<Rightarrow> panic + 'v) \<Rightarrow> ('k, 'v) hash_map \<Rightarrow> panic + ('k, 'v) hash_map" where
  "hm_try_iter_mut f m = (case first_panic f (DAList.impl_of m) of
     Some p \<Rightarrow> Inl p
   | None \<Rightarrow> Inr (hm_map_values (\<lambda>k v. projr (f k v)) m))"

lemmas hm_eval [mpconn_defs] =
  hm_new_def hm_get_def hm_contains_key_def hm_insert_def hm_retain_def hm_iter_def hm_keys_def
  hm_values_def hm_len_def hm_try_retain_def hm_try_iter_mut_def hm_map_values.rep_eq
  DAList.lookup.rep_eq DAList.empty.rep_eq DAList.update.rep_eq DAList.filter.rep_eq

section \<open>The type meets the contract\<close>

lemma hm_get_map_of: "hm_get m = map_of (DAList.impl_of m)"
  by (simp add: fun_eq_iff hm_get_def DAList.lookup.rep_eq)

lemma hm_contains_key_iff: "hm_contains_key m k \<longleftrightarrow> hm_get m k \<noteq> None"
  by (simp add: hm_contains_key_def split: option.splits)

lemma map_of_filter_distinct:
  "distinct (map fst es) \<Longrightarrow> map_of (filter (\<lambda>(k, v). P k v) es) k =
    (case map_of es k of None \<Rightarrow> None | Some v \<Rightarrow> if P k v then Some v else None)"
proof (induction es)
  case (Cons e es)
  have "fst e \<notin> set (map fst es) \<Longrightarrow> map_of es (fst e) = None"
    by (simp add: map_of_eq_None_iff)
  with Cons show ?case by (cases e) (auto split: option.splits)
qed simp

interpretation hm: hash_table hm_new hm_get hm_insert hm_retain hm_keys hm_len
proof unfold_locales
  fix m :: "('a, 'b) hash_map" and h :: "'a hasher" and k :: 'a and v :: 'b and P
  show "hm_get hm_new k = (None :: 'b option)"
    by (simp add: hm_get_def hm_new_def)
  show "hm_get (hm_insert k v m) = (hm_get m)(k \<mapsto> v)"
    by (auto simp: fun_eq_iff hm_get_def hm_insert_def DAList.lookup_update)
  show "hm_get (hm_retain P m) k =
      (case hm_get m k of None \<Rightarrow> None | Some v \<Rightarrow> if P k v then Some v else None)"
    by (simp add: hm_get_map_of hm_retain_def DAList.filter.rep_eq map_of_filter_distinct)
  show "set (hm_keys h m) = dom (hm_get m)"
    by (simp add: hm_keys_def hm_iter_def hm_get_map_of dom_map_of_conv_image_fst)
  have "distinct (map fst (sort_key (h \<circ> fst) (DAList.impl_of m)))"
    using mset_sort [of "h \<circ> fst" "DAList.impl_of m"]
    by (metis DAList.impl_of_distinct mset_eq_imp_distinct_iff mset_map)
  then show "distinct (hm_keys h m)"
    by (simp add: hm_keys_def hm_iter_def)
  show "hm_len m = length (hm_keys h m)"
    by (simp add: hm_len_def hm_keys_def hm_iter_def)
qed

lemma map_of_map_values:
  "map_of (map (\<lambda>(k, v). (k, f k v)) es) k = map_option (f k) (map_of es k)"
  by (induction es) auto

lemma hm_get_map_values:
  "hm_get (hm_map_values f m) k = map_option (f k) (hm_get m k)"
  by (simp add: hm_get_map_of hm_map_values.rep_eq map_of_map_values)

lemma hm_iter_get:
  "(k, v) \<in> set (hm_iter h m) \<longleftrightarrow> hm_get m k = Some v"
  by (simp add: hm_iter_def hm_get_map_of)

lemma first_panic_None_iff:
  "first_panic f es = None \<longleftrightarrow> (\<forall>(k, v) \<in> set es. \<exists>r. f k v = Inr r)"
proof (induction f es rule: first_panic.induct)
  case (2 f k v es)
  then show ?case by (cases "f k v") auto
qed simp

lemma first_panic_hm:
  "first_panic f (DAList.impl_of m) = None \<longleftrightarrow> (\<forall>k v. hm_get m k = Some v \<longrightarrow> (\<exists>r. f k v = Inr r))"
  by (auto simp: first_panic_None_iff hm_get_map_of)

lemma hm_try_retain_Inr_iff:
  "hm_try_retain f m = Inr m' \<longleftrightarrow>
    (\<forall>k v. hm_get m k = Some v \<longrightarrow> (\<exists>r. f k v = Inr r)) \<and> m' = hm_retain (\<lambda>k v. f k v = Inr True) m"
  unfolding first_panic_hm [symmetric] hm_try_retain_def
  by (auto split: option.splits)

lemma hm_try_iter_mut_Inr_iff:
  "hm_try_iter_mut f m = Inr m' \<longleftrightarrow>
    (\<forall>k v. hm_get m k = Some v \<longrightarrow> (\<exists>r. f k v = Inr r)) \<and> m' = hm_map_values (\<lambda>k v. projr (f k v)) m"
  unfolding first_panic_hm [symmetric] hm_try_iter_mut_def
  by (auto split: option.splits)

lemma first_panic_SomeD:
  "first_panic f es = Some p \<Longrightarrow> \<exists>k v. f k v = Inl p"
  by (induction f es rule: first_panic.induct) (auto split: sum.splits)

lemma hm_try_retain_InlD: "hm_try_retain f m = Inl p \<Longrightarrow> \<exists>k v. f k v = Inl p"
  by (auto simp: hm_try_retain_def dest: first_panic_SomeD split: option.splits)

lemma hm_try_iter_mut_InlD: "hm_try_iter_mut f m = Inl p \<Longrightarrow> \<exists>k v. f k v = Inl p"
  by (auto simp: hm_try_iter_mut_def dest: first_panic_SomeD split: option.splits)

text \<open>Every order of the entries is the order of some ranking.\<close>

lemma hm_iter_any_order:
  assumes "mset es = mset (DAList.impl_of m)"
  shows "\<exists>h. hm_iter h m = es"
proof -
  define h where "h k = the (map_of (zip (map fst es) [0..<length es]) k)" for k
  have dist: "distinct (map fst es)"
    using assms by (metis DAList.impl_of_distinct mset_eq_imp_distinct_iff mset_map)
  have rank: "h (fst (es ! i)) = i" if "i < length es" for i
    using that dist map_of_zip_nth [of "map fst es" "[0..<length es]" i] by (simp add: h_def)
  have ranks: "map (h \<circ> fst) es = [0..<length es]"
    by (rule nth_equalityI) (simp_all add: rank)
  then have "distinct (map (h \<circ> fst) es)"
    by (simp only: distinct_upt)
  then have inj: "inj_on (h \<circ> fst) (set (DAList.impl_of m))"
    using mset_eq_setD [OF assms] by (simp only: distinct_map)
  have "sorted (map (h \<circ> fst) es)"
    by (simp only: ranks sorted_upt)
  with assms [symmetric] inj have "sort_key (h \<circ> fst) (DAList.impl_of m) = es"
    by (rule sort_key_inj_key_eq)
  then show ?thesis by (auto simp: hm_iter_def)
qed

section \<open>Properties of all entries\<close>

definition hm_all :: "('k \<Rightarrow> 'v \<Rightarrow> bool) \<Rightarrow> ('k, 'v) hash_map \<Rightarrow> bool" where
  "hm_all P m = list_all (\<lambda>(k, v). P k v) (DAList.impl_of m)"

lemma hm_all_iff: "hm_all P m \<longleftrightarrow> (\<forall>k v. hm_get m k = Some v \<longrightarrow> P k v)"
  by (auto simp: hm_all_def list_all_iff hm_get_map_of)

lemma hm_allD: "hm_all P m \<Longrightarrow> hm_get m k = Some v \<Longrightarrow> P k v"
  by (simp add: hm_all_iff)

lemma hm_all_new [simp]: "hm_all P hm_new"
  by (simp add: hm_all_iff hm.get_new)

lemma hm_all_insert: "hm_all P m \<Longrightarrow> P k v \<Longrightarrow> hm_all P (hm_insert k v m)"
  by (simp add: hm_all_iff hm.get_ins)

lemma hm_all_retain: "hm_all P m \<Longrightarrow> hm_all P (hm_retain Q m)"
  by (auto simp: hm_all_iff hm.get_retain split: option.splits if_splits)

lemma hm_all_map_values:
  "hm_all (\<lambda>k v. P k (f k v)) m \<Longrightarrow> hm_all P (hm_map_values f m)"
  by (auto simp: hm_all_iff hm_get_map_values)

lemma hm_all_mono: "hm_all P m \<Longrightarrow> (\<And>k v. P k v \<Longrightarrow> Q k v) \<Longrightarrow> hm_all Q m"
  by (simp add: hm_all_iff)

end
