(* ===== verification/Peer_List.thy ===== *)
theory Peer_List
  imports Sequencer Hash_Map
begin

text \<open>
  \<open>peer_list.rs\<close>: the peers a node knows. A peer is its connections (socket addresses with the time
  they were last heard from), the counter of packets sent to it and the sequencer for packets
  received from it. Peers are never removed; connections are pruned when they go stale.

  Clock readings are arguments: a function on the numbers is the sequence of readings an
  operation makes. Iterations take the iteration order of the hash maps they visit (\<open>Hash_Map\<close>).
\<close>

section \<open>State and operations\<close>

record peer =
  connections :: "(socket_addr, system_time) hash_map"
  tx_counter :: u64
  peer_sequencer :: sequencer

record peer_list =
  peers :: "(u16, peer) hash_map"
  stale_time_limit :: duration

text \<open>\<open>PeerList::new\<close>: one clock reading per sequencer and one per configured address.\<close>

fun seed_connections ::
    "(nat \<Rightarrow> system_time) \<Rightarrow> socket_addr list \<Rightarrow> (socket_addr, system_time) hash_map \<Rightarrow>
      (socket_addr, system_time) hash_map" where
  "seed_connections ts [] cs = cs"
| "seed_connections ts (a # as) cs = seed_connections (later ts) as (hm_insert a (ts 0) cs)"

fun seed_peers :: "(nat \<Rightarrow> nat \<Rightarrow> system_time) \<Rightarrow> peer_config list \<Rightarrow> peer_list \<Rightarrow> peer_list" where
  "seed_peers clk [] pl = pl"
| "seed_peers clk (c # cs) pl =
     (let new_peer = \<lparr>connections = hm_new, tx_counter = 0,
            peer_sequencer = sequencer_new (from_millis 3) (clk 0 0)\<rparr>;
          new_peer = new_peer\<lparr>connections :=
            seed_connections (later (clk 0)) (addresses c) (connections new_peer)\<rparr>
      in seed_peers (later clk) cs (pl\<lparr>peers := hm_insert (config_id c) new_peer (peers pl)\<rparr>))"

definition peer_list_new ::
    "(nat \<Rightarrow> nat \<Rightarrow> system_time) \<Rightarrow> peer_config list option \<Rightarrow> peer_list" where
  "peer_list_new clk cfg =
     (let pl = \<lparr>peers = hm_new, stale_time_limit = from_secs 30\<rparr>
      in case cfg of Some cs \<Rightarrow> seed_peers clk cs pl | None \<Rightarrow> pl)"

definition add_peer :: "(nat \<Rightarrow> system_time) \<Rightarrow> u16 \<Rightarrow> socket_addr \<Rightarrow> peer_list \<Rightarrow> peer_list" where
  "add_peer ts pid addr pl =
     (case hm_get (peers pl) pid of
        Some peer \<Rightarrow>
          (case hm_get (connections peer) addr of
             Some lastseen \<Rightarrow> pl\<lparr>peers := hm_insert pid
               (peer\<lparr>connections := hm_insert addr (ts 0) (connections peer)\<rparr>) (peers pl)\<rparr>
           | None \<Rightarrow> pl\<lparr>peers := hm_insert pid
               (peer\<lparr>connections := hm_insert addr (ts 0) (connections peer)\<rparr>) (peers pl)\<rparr>)
      | None \<Rightarrow>
          let new_peer = \<lparr>connections = hm_new, tx_counter = 0,
                peer_sequencer = sequencer_new (from_millis 3) (ts 0)\<rparr>;
              new_peer = new_peer\<lparr>connections := hm_insert addr (ts 1) (connections new_peer)\<rparr>
          in pl\<lparr>peers := hm_insert pid new_peer (peers pl)\<rparr>)"

definition get_all_connections ::
    "u16 hasher \<Rightarrow> (u16 \<Rightarrow> socket_addr hasher) \<Rightarrow> peer_list \<Rightarrow> socket_addr list" where
  "get_all_connections h hc pl =
     concat (map (\<lambda>(pid, peer). hm_keys (hc pid) (connections peer)) (hm_iter h (peers pl)))"

definition get_peer_ids :: "u16 hasher \<Rightarrow> peer_list \<Rightarrow> u16 list" where
  "get_peer_ids h pl = hm_keys h (peers pl)"

definition get_peer_connections ::
    "(u16 \<Rightarrow> socket_addr hasher) \<Rightarrow> u16 \<Rightarrow> peer_list \<Rightarrow> socket_addr list" where
  "get_peer_connections hc pid pl =
     (case hm_get (peers pl) pid of
        Some peer \<Rightarrow> hm_keys (hc pid) (connections peer)
      | None \<Rightarrow> [])"

text \<open>\<open>get_peer_sequencer\<close> hands out a mutable reference; what is written through it is put back by
  \<open>set_peer_sequencer\<close>.\<close>

definition get_peer_sequencer :: "u16 \<Rightarrow> peer_list \<Rightarrow> sequencer option" where
  "get_peer_sequencer pid pl =
     (case hm_get (peers pl) pid of Some peer \<Rightarrow> Some (peer_sequencer peer) | None \<Rightarrow> None)"

definition set_peer_sequencer :: "u16 \<Rightarrow> sequencer \<Rightarrow> peer_list \<Rightarrow> peer_list" where
  "set_peer_sequencer pid s pl =
     (case hm_get (peers pl) pid of
        Some peer \<Rightarrow> pl\<lparr>peers := hm_insert pid (peer\<lparr>peer_sequencer := s\<rparr>) (peers pl)\<rparr>
      | None \<Rightarrow> pl)"

definition increment_tx_counter :: "peer \<Rightarrow> peer" where
  "increment_tx_counter peer = peer\<lparr>tx_counter := tx_counter peer + 1\<rparr>"

definition increment_peer_tx_counter :: "u16 \<Rightarrow> peer_list \<Rightarrow> peer_list" where
  "increment_peer_tx_counter pid pl =
     (case hm_get (peers pl) pid of
        Some peer \<Rightarrow> pl\<lparr>peers := hm_insert pid (increment_tx_counter peer) (peers pl)\<rparr>
      | None \<Rightarrow> pl)"

definition get_peer_tx_counter :: "u16 \<Rightarrow> peer_list \<Rightarrow> panic + u64" where
  "get_peer_tx_counter pid pl =
     (case unwrap ''get_peer_tx_counter'' (hm_get (peers pl) pid) of
        Inl p \<Rightarrow> Inl p
      | Inr peer \<Rightarrow> Inr (tx_counter peer))"

definition is_fresh :: "duration \<Rightarrow> system_time \<Rightarrow> system_time \<Rightarrow> panic + bool" where
  "is_fresh limit now lastseen =
     (case duration_since now lastseen of
        None \<Rightarrow> Inl (Unwrap_Err ''duration_since'')
      | Some d \<Rightarrow> Inr (d < limit))"

definition prune_peer :: "duration \<Rightarrow> system_time \<Rightarrow> peer \<Rightarrow> panic + peer" where
  "prune_peer limit now peer =
     (case hm_try_retain (\<lambda>_ lastseen. is_fresh limit now lastseen) (connections peer) of
        Inl p \<Rightarrow> Inl p
      | Inr cs \<Rightarrow> Inr (peer\<lparr>connections := cs\<rparr>))"

definition prune_stale_peers :: "system_time \<Rightarrow> peer_list \<Rightarrow> panic + peer_list" where
  "prune_stale_peers now pl =
     (case hm_try_iter_mut (\<lambda>_ peer. prune_peer (stale_time_limit pl) now peer) (peers pl) of
        Inl p \<Rightarrow> Inl p
      | Inr ps \<Rightarrow> Inr (pl\<lparr>peers := ps\<rparr>))"

lemmas peer_list_defs [mpconn_defs] =
  peer_list_new_def add_peer_def get_all_connections_def get_peer_ids_def get_peer_connections_def
  get_peer_sequencer_def set_peer_sequencer_def increment_tx_counter_def
  increment_peer_tx_counter_def get_peer_tx_counter_def is_fresh_def prune_peer_def
  prune_stale_peers_def

section \<open>Views of a peer list\<close>

definition known_peers :: "peer_list \<Rightarrow> u16 set" where
  "known_peers pl = dom (hm_get (peers pl))"

definition peer_connection :: "peer_list \<Rightarrow> u16 \<Rightarrow> socket_addr \<Rightarrow> system_time option" where
  "peer_connection pl pid addr =
     (case hm_get (peers pl) pid of Some peer \<Rightarrow> hm_get (connections peer) addr | None \<Rightarrow> None)"

lemma known_peersE:
  assumes "pid \<in> known_peers pl"
  obtains peer where "hm_get (peers pl) pid = Some peer"
  using assms by (auto simp: known_peers_def)

text \<open>What each operation does to the entry of each peer.\<close>

lemma get_add_peer:
  "hm_get (peers (add_peer ts pid addr pl)) = (hm_get (peers pl))(pid \<mapsto>
     (case hm_get (peers pl) pid of
        Some peer \<Rightarrow> peer\<lparr>connections := hm_insert addr (ts 0) (connections peer)\<rparr>
      | None \<Rightarrow> \<lparr>connections = hm_insert addr (ts 1) hm_new, tx_counter = 0,
                 peer_sequencer = sequencer_new (from_millis 3) (ts 0)\<rparr>))"
  by (simp add: add_peer_def hm.get_ins Let_def split: option.splits)

lemma get_set_peer_sequencer:
  "hm_get (peers (set_peer_sequencer pid s pl)) pid' =
     (if pid' = pid then map_option (\<lambda>peer. peer\<lparr>peer_sequencer := s\<rparr>) (hm_get (peers pl) pid)
      else hm_get (peers pl) pid')"
  by (auto simp: set_peer_sequencer_def hm.get_ins split: option.splits)

lemma get_increment_peer_tx_counter:
  "hm_get (peers (increment_peer_tx_counter pid pl)) pid' =
     (if pid' = pid then map_option increment_tx_counter (hm_get (peers pl) pid)
      else hm_get (peers pl) pid')"
  by (auto simp: increment_peer_tx_counter_def hm.get_ins split: option.splits)

lemma known_peers_ops [simp]:
  "known_peers (add_peer ts pid addr pl) = insert pid (known_peers pl)"
  "known_peers (set_peer_sequencer pid s pl) = known_peers pl"
  "known_peers (increment_peer_tx_counter pid pl) = known_peers pl"
  by (auto simp: known_peers_def get_add_peer get_set_peer_sequencer get_increment_peer_tx_counter
      split: if_splits)

lemma stale_time_limit_ops [simp, mpconn_frame]:
  "stale_time_limit (add_peer ts pid addr pl) = stale_time_limit pl"
  "stale_time_limit (set_peer_sequencer pid s pl) = stale_time_limit pl"
  "stale_time_limit (increment_peer_tx_counter pid pl) = stale_time_limit pl"
  by (auto simp: add_peer_def set_peer_sequencer_def increment_peer_tx_counter_def Let_def
      split: option.splits)

lemma get_peer_tx_counter_Inl_iff:
  "(\<exists>p. get_peer_tx_counter pid pl = Inl p) \<longleftrightarrow> pid \<notin> known_peers pl"
  by (auto simp: get_peer_tx_counter_def known_peers_def unwrap_def split: option.splits)

lemma get_peer_sequencer_None_iff:
  "get_peer_sequencer pid pl = None \<longleftrightarrow> pid \<notin> known_peers pl"
  by (auto simp: get_peer_sequencer_def known_peers_def split: option.splits)

lemma set_get_peer_ids [simp]: "set (get_peer_ids h pl) = known_peers pl"
  by (simp add: get_peer_ids_def known_peers_def hm.set_keys)

lemma distinct_get_peer_ids [simp]: "distinct (get_peer_ids h pl)"
  by (simp add: get_peer_ids_def hm.distinct_keys)

lemma set_get_peer_connections:
  "set (get_peer_connections hc pid pl) = dom (peer_connection pl pid)"
  by (cases "hm_get (peers pl) pid")
    (auto simp: get_peer_connections_def peer_connection_def hm.set_keys)

lemma distinct_get_peer_connections [simp]: "distinct (get_peer_connections hc pid pl)"
  by (auto simp: get_peer_connections_def hm.distinct_keys split: option.splits)

text \<open>In the list of all connections an address occurs once for every peer that has it, whatever
  the iteration orders of the hash maps are.\<close>

lemma count_list_concat: "count_list (concat xss) a = sum_list (map (\<lambda>xs. count_list xs a) xss)"
  by (induction xss) simp_all

lemma count_list_distinct: "distinct xs \<Longrightarrow> count_list xs a = of_bool (a \<in> set xs)"
  by (induction xs) auto

lemma sum_list_of_bool: "sum_list (map (\<lambda>x. of_bool (P x)) xs) = length (filter P xs)"
  by (induction xs) simp_all

lemma get_all_connections_count:
  "count_list (get_all_connections h hc pl) a = card {pid. peer_connection pl pid a \<noteq> None}"
proof -
  let ?P = "\<lambda>x. a \<in> dom (hm_get (connections (snd x)))"
  have "count_list (get_all_connections h hc pl) a = length (filter ?P (hm_iter h (peers pl)))"
    by (simp add: get_all_connections_def count_list_concat comp_def case_prod_unfold
        count_list_distinct hm.distinct_keys hm.set_keys sum_list_of_bool)
  also have "\<dots> = card (set (map fst (filter ?P (hm_iter h (peers pl)))))"
    using hm.distinct_keys [of h "peers pl"]
    by (subst distinct_card) (simp_all add: hm_keys_def distinct_map_filter)
  also have "set (map fst (filter ?P (hm_iter h (peers pl)))) = {pid. peer_connection pl pid a \<noteq> None}"
  proof (rule set_eqI)
    fix pid
    have "pid \<in> set (map fst (filter ?P (hm_iter h (peers pl)))) \<longleftrightarrow>
        (\<exists>peer. (pid, peer) \<in> set (hm_iter h (peers pl)) \<and> a \<in> dom (hm_get (connections peer)))"
      by (simp add: image_iff Bex_def)
    also have "\<dots> \<longleftrightarrow> (\<exists>peer. hm_get (peers pl) pid = Some peer \<and> hm_get (connections peer) a \<noteq> None)"
      by (simp only: hm_iter_get domIff)
    finally show "pid \<in> set (map fst (filter ?P (hm_iter h (peers pl)))) \<longleftrightarrow>
        pid \<in> {pid. peer_connection pl pid a \<noteq> None}"
      by (simp only: mem_Collect_eq) (auto simp: peer_connection_def split: option.splits)
  qed
  finally show ?thesis .
qed

section \<open>Pruning\<close>

lemma is_fresh_Inr_iff: "is_fresh limit now t = Inr b \<longleftrightarrow> t \<le> now \<and> b = (now - t < limit)"
  by (auto simp: is_fresh_def duration_since_def)

lemma prune_peer_Inr_iff:
  "prune_peer limit now peer = Inr peer' \<longleftrightarrow>
    hm_all (\<lambda>_ t. t \<le> now) (connections peer) \<and>
    peer' = peer\<lparr>connections := hm_retain (\<lambda>_ t. t \<le> now \<and> now - t < limit) (connections peer)\<rparr>"
proof -
  let ?f = "\<lambda>_ lastseen. is_fresh limit now lastseen"
  have "(\<forall>k v. hm_get (connections peer) k = Some v \<longrightarrow> (\<exists>r. ?f k v = Inr r)) \<longleftrightarrow>
      hm_all (\<lambda>_ t. t \<le> now) (connections peer)"
    by (auto simp: hm_all_iff is_fresh_Inr_iff)
  then have "hm_try_retain ?f (connections peer) = Inr cs \<longleftrightarrow>
      hm_all (\<lambda>_ t. t \<le> now) (connections peer) \<and>
      cs = hm_retain (\<lambda>_ t. t \<le> now \<and> now - t < limit) (connections peer)" for cs
    by (simp only: hm_try_retain_Inr_iff) (simp add: is_fresh_Inr_iff)
  note retain = this
  show ?thesis
  proof (cases "hm_try_retain ?f (connections peer)")
    case (Inl p)
    with retain [of "hm_retain (\<lambda>_ t. t \<le> now \<and> now - t < limit) (connections peer)"]
    show ?thesis by (simp add: prune_peer_def)
  next
    case (Inr cs)
    with retain [of cs] show ?thesis by (auto simp: prune_peer_def)
  qed
qed

lemma prune_stale_peers_Inr_iff:
  "prune_stale_peers now pl = Inr pl' \<longleftrightarrow>
    hm_all (\<lambda>_ peer. hm_all (\<lambda>_ t. t \<le> now) (connections peer)) (peers pl) \<and>
    pl' = pl\<lparr>peers := hm_map_values (\<lambda>_ peer. projr (prune_peer (stale_time_limit pl) now peer)) (peers pl)\<rparr>"
proof -
  let ?f = "\<lambda>_ peer. prune_peer (stale_time_limit pl) now peer"
  have "(\<forall>k v. hm_get (peers pl) k = Some v \<longrightarrow> (\<exists>r. ?f k v = Inr r)) \<longleftrightarrow>
      hm_all (\<lambda>_ peer. hm_all (\<lambda>_ t. t \<le> now) (connections peer)) (peers pl)"
    by (auto simp: hm_all_iff [of _ "peers pl"] prune_peer_Inr_iff)
  then show ?thesis
    using hm_try_iter_mut_Inr_iff [of ?f "peers pl"]
    by (cases "hm_try_iter_mut ?f (peers pl)") (auto simp: prune_stale_peers_def)
qed

lemma get_prune_stale_peers:
  assumes "prune_stale_peers now pl = Inr pl'"
  shows "hm_get (peers pl') pid = map_option (\<lambda>peer. peer\<lparr>connections :=
    hm_retain (\<lambda>_ t. t \<le> now \<and> now - t < stale_time_limit pl) (connections peer)\<rparr>)
      (hm_get (peers pl) pid)"
proof (cases "hm_get (peers pl) pid")
  case None
  with assms show ?thesis by (simp add: prune_stale_peers_Inr_iff hm_get_map_values)
next
  case (Some peer)
  with assms have "hm_all (\<lambda>_ t. t \<le> now) (connections peer)"
    by (auto simp: prune_stale_peers_Inr_iff dest: hm_allD)
  then have "prune_peer (stale_time_limit pl) now peer = Inr (peer\<lparr>connections :=
      hm_retain (\<lambda>_ t. t \<le> now \<and> now - t < stale_time_limit pl) (connections peer)\<rparr>)"
    by (simp add: prune_peer_Inr_iff)
  with assms Some show ?thesis
    by (auto simp: prune_stale_peers_Inr_iff hm_get_map_values)
qed

lemma prune_stale_peers_frame:
  assumes "prune_stale_peers now pl = Inr pl'"
  shows "known_peers pl' = known_peers pl" and "stale_time_limit pl' = stale_time_limit pl"
  using assms get_prune_stale_peers [OF assms]
  by (auto simp: known_peers_def prune_stale_peers_Inr_iff)

section \<open>Invariants\<close>

text \<open>The sequencer of a peer is well-formed and holds only packets that carry the peer's id.\<close>

definition peer_inv :: "u16 \<Rightarrow> peer \<Rightarrow> bool" where
  "peer_inv pid peer \<longleftrightarrow> seq_inv (peer_sequencer peer) \<and>
     list_all (\<lambda>(_, p). peer_id p = pid) (bt_entries (packet_queue (peer_sequencer peer)))"

definition peer_list_inv :: "peer_list \<Rightarrow> bool" where
  "peer_list_inv pl = hm_all peer_inv (peers pl)"

text \<open>No time stamp lies after \<open>t\<close>.\<close>

definition peer_stamped :: "system_time \<Rightarrow> peer \<Rightarrow> bool" where
  "peer_stamped t peer \<longleftrightarrow> last_update (peer_sequencer peer) \<le> t \<and>
     hm_all (\<lambda>_ lastseen. lastseen \<le> t) (connections peer)"

definition peer_list_stamped :: "system_time \<Rightarrow> peer_list \<Rightarrow> bool" where
  "peer_list_stamped t pl = hm_all (\<lambda>_. peer_stamped t) (peers pl)"

lemma peer_stamped_mono: "peer_stamped t peer \<Longrightarrow> t \<le> t' \<Longrightarrow> peer_stamped t' peer"
  by (auto simp: peer_stamped_def elim!: hm_all_mono)

lemma peer_list_stamped_mono: "peer_list_stamped t pl \<Longrightarrow> t \<le> t' \<Longrightarrow> peer_list_stamped t' pl"
  by (auto simp: peer_list_stamped_def elim!: hm_all_mono intro: peer_stamped_mono)

lemma seq_entries_new [simp]: "bt_entries (packet_queue (sequencer_new d t)) = []"
  by (simp add: sequencer_new_def bt_new.rep_eq)

lemma last_update_new [simp]: "last_update (sequencer_new d t) = t"
  by (simp add: sequencer_new_def)

lemma hm_all_seed_connections:
  assumes "\<And>i. ts i \<le> t" and "hm_all (\<lambda>_ lastseen. lastseen \<le> t) cs"
  shows "hm_all (\<lambda>_ lastseen. lastseen \<le> t) (seed_connections ts as cs)"
  using assms by (induction ts as cs rule: seed_connections.induct)
    (simp_all add: hm_all_insert later_def)

lemma seed_peers_invs:
  assumes "\<And>j i. clk j i \<le> t" and "peer_list_inv pl" and "peer_list_stamped t pl"
  shows "peer_list_inv (seed_peers clk cs pl) \<and> peer_list_stamped t (seed_peers clk cs pl)"
  using assms
proof (induction cs arbitrary: clk pl)
  case (Cons c cs)
  let ?p = "\<lparr>connections = seed_connections (later (clk 0)) (addresses c) hm_new, tx_counter = 0,
    peer_sequencer = sequencer_new (from_millis 3) (clk 0 0)\<rparr>"
  have "peer_inv (config_id c) ?p" by (simp add: peer_inv_def seq_inv_new)
  moreover have "peer_stamped t ?p"
    using Cons.prems(1) by (simp add: peer_stamped_def hm_all_seed_connections later_def)
  ultimately have "peer_list_inv (pl\<lparr>peers := hm_insert (config_id c) ?p (peers pl)\<rparr>)"
    and "peer_list_stamped t (pl\<lparr>peers := hm_insert (config_id c) ?p (peers pl)\<rparr>)"
    using Cons.prems by (simp_all add: peer_list_inv_def peer_list_stamped_def hm_all_insert)
  moreover have "later clk j i \<le> t" for j i
    using Cons.prems(1) by (simp add: later_def)
  ultimately show ?case
    using Cons.IH by (simp add: Let_def)
qed simp

lemma seed_peers_inv:
  "peer_list_inv (seed_peers clk cs \<lparr>peers = hm_new, stale_time_limit = d\<rparr>)"
  "peer_list_inv \<lparr>peers = hm_new, stale_time_limit = d\<rparr>"
proof -
  show empty: "peer_list_inv \<lparr>peers = hm_new, stale_time_limit = d\<rparr>"
    by (simp add: peer_list_inv_def)
  have "peer_list_inv pl \<Longrightarrow> peer_list_inv (seed_peers clk cs pl)" for pl
    by (induction cs arbitrary: clk pl)
      (simp_all add: Let_def peer_list_inv_def hm_all_insert peer_inv_def seq_inv_new)
  from this [OF empty] show "peer_list_inv (seed_peers clk cs \<lparr>peers = hm_new, stale_time_limit = d\<rparr>)" .
qed

lemma peer_list_new_invs [mpconn_inv]:
  assumes "\<And>j i. clk j i \<le> t"
  shows "peer_list_inv (peer_list_new clk cfg)" and "peer_list_stamped t (peer_list_new clk cfg)"
  using seed_peers_invs [OF assms, of "\<lparr>peers = hm_new, stale_time_limit = from_secs 30\<rparr>"]
  by (auto simp: peer_list_new_def Let_def peer_list_inv_def peer_list_stamped_def
      split: option.splits)

lemma add_peer_invs [mpconn_inv]:
  assumes "peer_list_inv pl"
  shows "peer_list_inv (add_peer ts pid addr pl)"
  using assms
  by (auto simp: peer_list_inv_def hm_all_iff get_add_peer peer_inv_def seq_inv_new
      split: option.splits if_splits)

lemma add_peer_stamped:
  assumes "peer_list_stamped t pl" and "\<And>i. ts i \<le> t"
  shows "peer_list_stamped t (add_peer ts pid addr pl)"
proof -
  have "peer_stamped t (peer\<lparr>connections := hm_insert addr (ts 0) (connections peer)\<rparr>)"
    if "hm_get (peers pl) pid = Some peer" for peer
    using hm_allD [OF assms(1) [unfolded peer_list_stamped_def] that] assms(2)
    by (simp add: peer_stamped_def hm_all_insert)
  with assms show ?thesis
    by (auto simp: peer_list_stamped_def hm_all_iff [of _ "peers _"] get_add_peer peer_stamped_def
        hm_all_insert split: option.splits if_splits)
qed

lemma peer_inv_seqD:
  assumes "peer_list_inv pl" and "get_peer_sequencer pid pl = Some s"
  shows "seq_inv s" and "bt_lookup (packet_queue s) k = Some p \<Longrightarrow> peer_id p = pid"
proof -
  from assms obtain peer where "hm_get (peers pl) pid = Some peer" and s: "peer_sequencer peer = s"
    by (auto simp: get_peer_sequencer_def split: option.splits)
  with assms(1) have "peer_inv pid peer" by (auto simp: peer_list_inv_def dest: hm_allD)
  then show "seq_inv s" and "bt_lookup (packet_queue s) k = Some p \<Longrightarrow> peer_id p = pid"
    using s by (auto simp: peer_inv_def list_all_iff bt_lookup.rep_eq)
qed

lemma set_peer_sequencer_inv [mpconn_inv]:
  assumes "peer_list_inv pl" and "seq_inv s"
    and "\<And>k p. bt_lookup (packet_queue s) k = Some p \<Longrightarrow> peer_id p = pid"
  shows "peer_list_inv (set_peer_sequencer pid s pl)"
  using assms
  by (auto simp: peer_list_inv_def hm_all_iff get_set_peer_sequencer peer_inv_def list_all_iff
      bt_lookup.rep_eq split: if_splits)

lemma increment_peer_tx_counter_invs [mpconn_inv]:
  "peer_list_inv pl \<Longrightarrow> peer_list_inv (increment_peer_tx_counter pid pl)"
  "peer_list_stamped t pl \<Longrightarrow> peer_list_stamped t (increment_peer_tx_counter pid pl)"
  by (auto simp: peer_list_inv_def peer_list_stamped_def hm_all_iff [of _ "peers _"] peer_inv_def
      peer_stamped_def get_increment_peer_tx_counter increment_tx_counter_def split: if_splits)

lemma prune_stale_peers_invs [mpconn_inv]:
  assumes "prune_stale_peers now pl = Inr pl'"
  shows "peer_list_inv pl \<Longrightarrow> peer_list_inv pl'"
    and "peer_list_stamped t pl \<Longrightarrow> peer_list_stamped t pl'"
  using get_prune_stale_peers [OF assms]
  by (auto simp: peer_list_inv_def peer_list_stamped_def hm_all_iff [of _ "peers _"] peer_inv_def
      peer_stamped_def hm_all_retain)

lemma peer_stamped_seqD:
  assumes "peer_list_stamped t pl" and "get_peer_sequencer pid pl = Some s"
  shows "last_update s \<le> t"
proof -
  from assms(2) obtain peer where p: "hm_get (peers pl) pid = Some peer" and "peer_sequencer peer = s"
    by (auto simp: get_peer_sequencer_def split: option.splits)
  with hm_allD [OF assms(1) [unfolded peer_list_stamped_def] p] show ?thesis
    by (simp add: peer_stamped_def)
qed

lemma set_peer_sequencer_stamped:
  assumes "peer_list_stamped t pl" and "last_update s \<le> t"
  shows "peer_list_stamped t (set_peer_sequencer pid s pl)"
  using assms
  by (auto simp: peer_list_stamped_def hm_all_iff [of _ "peers _"] peer_stamped_def
      get_set_peer_sequencer split: if_splits)

section \<open>Properties\<close>

definition demo_socket :: "u16 \<Rightarrow> socket_addr" where
  "demo_socket port = SocketV4 0x0A0C0001 port"

definition demo_peer_list :: peer_list where
  "demo_peer_list = peer_list_new (\<lambda>_ _. 100)
     (Some [\<lparr>addresses = [demo_socket 1, demo_socket 2], config_id = 7\<rparr>])"

text \<open>C36. \<open>add_peer\<close>, on a known and on a new peer: the address becomes a connection of the peer,
  stamped with the time of the call, every other connection of every peer stays as it was; a known
  peer keeps its counter and its sequencer, a new one starts at zero with an empty sequencer.\<close>

theorem add_peer_behaviour:
  "known_peers (add_peer ts pid addr pl) = insert pid (known_peers pl) \<and>
   peer_connection (add_peer ts pid addr pl) pid addr =
     Some (if pid \<in> known_peers pl then ts 0 else ts 1) \<and>
   (\<forall>q a. (q, a) \<noteq> (pid, addr) \<longrightarrow>
      peer_connection (add_peer ts pid addr pl) q a = peer_connection pl q a) \<and>
   (\<forall>q \<in> known_peers pl.
      get_peer_tx_counter q (add_peer ts pid addr pl) = get_peer_tx_counter q pl \<and>
      get_peer_sequencer q (add_peer ts pid addr pl) = get_peer_sequencer q pl) \<and>
   (pid \<notin> known_peers pl \<longrightarrow> get_peer_tx_counter pid (add_peer ts pid addr pl) = Inr 0 \<and>
      get_peer_sequencer pid (add_peer ts pid addr pl) = Some (sequencer_new (from_millis 3) (ts 0)))"
  by (auto simp: peer_connection_def get_add_peer hm.get_ins hm.get_new get_peer_tx_counter_def
      get_peer_sequencer_def known_peers_def split: option.splits)

theorem add_peer_behaviour_witness:
  "7 \<in> known_peers demo_peer_list \<and>
   get_peer_tx_counter 7 (add_peer (\<lambda>_. 200) 9 (demo_socket 3) demo_peer_list) =
     get_peer_tx_counter 7 demo_peer_list \<and>
   9 \<notin> known_peers demo_peer_list \<and>
   get_peer_tx_counter 9 (add_peer (\<lambda>_. 200) 9 (demo_socket 3) demo_peer_list) = Inr 0"
proof -
  have "hm_contains_key (peers demo_peer_list) 7" and "\<not> hm_contains_key (peers demo_peer_list) 9"
    by code_simp+
  then have "7 \<in> known_peers demo_peer_list" and "9 \<notin> known_peers demo_peer_list"
    by (auto simp: known_peers_def hm_contains_key_iff)
  then show ?thesis
    using add_peer_behaviour [of "\<lambda>_. 200" 9 "demo_socket 3" demo_peer_list] by simp
qed

text \<open>C37. Pruning panics exactly if some connection is stamped later than now; otherwise it removes
  exactly the connections not heard from for the time limit or longer, and touches nothing else: no
  peer is forgotten, no counter and no sequencer changes.\<close>

theorem prune_stale_peers_behaviour:
  "case prune_stale_peers now pl of
     Inl p \<Rightarrow> \<exists>pid addr t. peer_connection pl pid addr = Some t \<and> now < t
   | Inr pl' \<Rightarrow>
       (\<forall>pid addr. peer_connection pl' pid addr = (case peer_connection pl pid addr of
          None \<Rightarrow> None
        | Some t \<Rightarrow> if t \<le> now \<and> now - t < stale_time_limit pl then Some t else None)) \<and>
       (\<nexists>pid addr t. peer_connection pl pid addr = Some t \<and> now < t) \<and>
       known_peers pl' = known_peers pl \<and>
       (\<forall>pid. get_peer_tx_counter pid pl' = get_peer_tx_counter pid pl \<and>
              get_peer_sequencer pid pl' = get_peer_sequencer pid pl)"
proof (cases "prune_stale_peers now pl")
  case (Inl p)
  then have "\<not> hm_all (\<lambda>_ peer. hm_all (\<lambda>_ t. t \<le> now) (connections peer)) (peers pl)"
    using prune_stale_peers_Inr_iff [of now pl] by auto
  then obtain pid peer addr t where "hm_get (peers pl) pid = Some peer"
      and "hm_get (connections peer) addr = Some t" and "now < t"
    by (auto simp: hm_all_iff not_le)
  then have "peer_connection pl pid addr = Some t \<and> now < t"
    by (simp add: peer_connection_def)
  with Inl show ?thesis by auto
next
  case (Inr pl')
  note get = get_prune_stale_peers [OF Inr]
  have "\<not> now < t" if "peer_connection pl pid addr = Some t" for pid addr t
    using Inr that
    by (force simp: prune_stale_peers_Inr_iff hm_all_iff peer_connection_def split: option.splits)
  moreover have "peer_connection pl' pid addr = (case peer_connection pl pid addr of
      None \<Rightarrow> None
    | Some t \<Rightarrow> if t \<le> now \<and> now - t < stale_time_limit pl then Some t else None)" for pid addr
    by (cases "hm_get (peers pl) pid") (simp_all add: peer_connection_def get hm.get_retain)
  moreover have "get_peer_tx_counter pid pl' = get_peer_tx_counter pid pl \<and>
      get_peer_sequencer pid pl' = get_peer_sequencer pid pl" for pid
    by (cases "hm_get (peers pl) pid")
      (simp_all add: get_peer_tx_counter_def get_peer_sequencer_def get)
  ultimately show ?thesis
    using Inr prune_stale_peers_frame [OF Inr] by auto
qed

end
