(* ===== verification/Traffic_Director.thy ===== *)
theory Traffic_Director
  imports Messages Hash_Map
begin

text \<open>
  \<open>traffic_director.rs\<close>: which peer a packet from the local side goes to. On layer 2 a table from
  MAC addresses to peers, learned from the source addresses of tunnelled frames; on layer 3 a table
  from tunnel addresses to peers, learned from keepalives.

  The packet parser (\<open>etherparse::SlicedPacket\<close>) is not part of the program: it is an argument,
  a function from bytes to the slices it finds, or \<open>None\<close> where it returns an error.
\<close>

section \<open>What the parser returns\<close>

type_synonym mac = "u8 \<times> u8 \<times> u8 \<times> u8 \<times> u8 \<times> u8"

datatype link_slice = Ethernet2 (source: mac) (dest_mac: mac)

datatype internet_slice = Ipv4_Slice (destination_addr: ipv4_addr) | Ipv6_Slice

record sliced_packet =
  link :: "link_slice option"
  ip :: "internet_slice option"

type_synonym slicer = "byte_vec \<Rightarrow> sliced_packet option"

section \<open>State and operations\<close>

datatype path = Broadcast | Peer_Path u16

record layer2_director =
  mac_table :: "(mac, u16) hash_map"
  peerid_table :: "(u16, ip_addr) hash_map"

record layer3_director =
  routing_table :: "(ip_addr, u16) hash_map"

datatype director_type = Layer2 layer2_director | Layer3 layer3_director

definition layer2_director_new :: layer2_director where
  "layer2_director_new = \<lparr>mac_table = hm_new, peerid_table = hm_new\<rparr>"

definition extract_ether_src :: "slicer \<Rightarrow> byte_vec \<Rightarrow> mac option" where
  "extract_ether_src from_ethernet pkt =
     (case from_ethernet pkt of
        Some ether_packet \<Rightarrow>
          (case link ether_packet of Some (Ethernet2 src dst) \<Rightarrow> Some src | None \<Rightarrow> None)
      | None \<Rightarrow> None)"

definition extract_ether_dst :: "slicer \<Rightarrow> byte_vec \<Rightarrow> mac option" where
  "extract_ether_dst from_ethernet pkt =
     (case from_ethernet pkt of
        Some ether_packet \<Rightarrow>
          (case link ether_packet of Some (Ethernet2 src dst) \<Rightarrow> Some dst | None \<Rightarrow> None)
      | None \<Rightarrow> None)"

definition learn_path :: "slicer \<Rightarrow> u16 \<Rightarrow> byte_vec \<Rightarrow> layer2_director \<Rightarrow> layer2_director" where
  "learn_path from_ethernet pid pkt td =
     (case extract_ether_src from_ethernet pkt of
        Some src \<Rightarrow>
          if \<not> hm_contains_key (mac_table td) src
          then td\<lparr>mac_table := hm_insert src pid (mac_table td)\<rparr>
          else td
      | None \<Rightarrow> td)"

definition broadcast_mac :: mac where
  "broadcast_mac = (0xff, 0xff, 0xff, 0xff, 0xff, 0xff)"

definition get_path :: "slicer \<Rightarrow> byte_vec \<Rightarrow> layer2_director \<Rightarrow> path option" where
  "get_path from_ethernet pkt td =
     (case extract_ether_dst from_ethernet pkt of
        Some dst \<Rightarrow>
          if dst = broadcast_mac then Some Broadcast
          else (case hm_get (mac_table td) dst of None \<Rightarrow> None | Some d \<Rightarrow> Some (Peer_Path d))
      | None \<Rightarrow> None)"

definition layer3_director_new :: layer3_director where
  "layer3_director_new = \<lparr>routing_table = hm_new\<rparr>"

definition insert_route :: "u16 \<Rightarrow> ip_addr \<Rightarrow> layer3_director \<Rightarrow> bool \<times> layer3_director" where
  "insert_route pid addr td =
     (if hm_contains_key (routing_table td) addr then (False, td)
      else (True, td\<lparr>routing_table := hm_insert addr pid (routing_table td)\<rparr>))"

definition extract_destination_address :: "slicer \<Rightarrow> byte_vec \<Rightarrow> ip_addr option" where
  "extract_destination_address from_ip pkt =
     (case from_ip pkt of
        None \<Rightarrow> None
      | Some sliced \<Rightarrow>
          (case ip sliced of
             Some (Ipv4_Slice dst) \<Rightarrow> Some (V4 dst)
           | Some Ipv6_Slice \<Rightarrow> None
           | None \<Rightarrow> None))"

definition get_route :: "slicer \<Rightarrow> byte_vec \<Rightarrow> layer3_director \<Rightarrow> u16 option" where
  "get_route from_ip pkt td =
     (case extract_destination_address from_ip pkt of
        Some dst \<Rightarrow> hm_get (routing_table td) dst
      | None \<Rightarrow> None)"

lemmas traffic_director_defs [mpconn_defs] =
  layer2_director_new_def extract_ether_src_def extract_ether_dst_def learn_path_def
  broadcast_mac_def get_path_def layer3_director_new_def insert_route_def
  extract_destination_address_def get_route_def

section \<open>A contract for learning tables\<close>

text \<open>
  Both directors learn the same way: an entry is made once, by the first peer that claims the
  address, and is never changed. \<open>claim\<close> makes the entry, \<open>owner\<close> looks it up.
\<close>

locale first_claim_table =
  fixes claim :: "u16 \<Rightarrow> 'a \<Rightarrow> 't \<Rightarrow> 't"
    and owner :: "'t \<Rightarrow> 'a \<Rightarrow> u16 option"
  assumes owner_claim: "owner (claim p a t) =
    (if owner t a = None then (owner t)(a \<mapsto> p) else owner t)"
begin

lemma map_le_trans_owner [trans]:
  "owner t \<subseteq>\<^sub>m owner t' \<Longrightarrow> owner t' \<subseteq>\<^sub>m owner t'' \<Longrightarrow> owner t \<subseteq>\<^sub>m owner t''"
  by (rule map_le_trans)

lemma claim_mono: "owner t \<subseteq>\<^sub>m owner (claim p a t)"
  by (auto simp: owner_claim map_le_def)

lemma claims_mono: "owner t \<subseteq>\<^sub>m owner (fold (\<lambda>(p, a). claim p a) cs t)"
proof (induction cs arbitrary: t)
  case (Cons c cs)
  have "owner t \<subseteq>\<^sub>m owner (claim (fst c) (snd c) t)" by (rule claim_mono)
  also note Cons.IH [of "claim (fst c) (snd c) t"]
  finally show ?case by (simp add: case_prod_beta)
qed (simp add: map_le_def)

text \<open>After any sequence of claims, an address that nobody owned belongs to the first claimant.\<close>

lemma first_claim_wins:
  "owner t a = None \<Longrightarrow> owner (fold (\<lambda>(p, a). claim p a) cs t) a =
    map_option fst (find (\<lambda>(p, b). b = a) cs)"
proof (induction cs arbitrary: t)
  case (Cons c cs)
  obtain p b where c: "c = (p, b)" by (cases c)
  show ?case
  proof (cases "b = a")
    case True
    with Cons.prems have "owner (claim p b t) a = Some p" by (simp add: owner_claim)
    then have "owner (fold (\<lambda>(p, a). claim p a) cs (claim p b t)) a = Some p"
      using claims_mono [of "claim p b t" cs] by (auto simp: map_le_def dom_def)
    with True c show ?thesis by simp
  next
    case False
    with Cons.prems have "owner (claim p b t) a = None" by (simp add: owner_claim)
    with Cons.IH False c show ?thesis by simp
  qed
qed simp

lemma owners_are_claimants:
  "ran (owner (fold (\<lambda>(p, a). claim p a) cs t)) \<subseteq> ran (owner t) \<union> fst ` set cs"
proof (induction cs arbitrary: t)
  case (Cons c cs)
  obtain p b where c: "c = (p, b)" by (cases c)
  have "ran (owner (claim p b t)) \<subseteq> insert p (ran (owner t))"
    by (auto simp: owner_claim ran_def split: if_splits)
  with Cons.IH [of "claim p b t"] c show ?case by auto
qed simp

end

definition claim_mac :: "u16 \<Rightarrow> mac \<Rightarrow> layer2_director \<Rightarrow> layer2_director" where
  "claim_mac pid m td = (if \<not> hm_contains_key (mac_table td) m
     then td\<lparr>mac_table := hm_insert m pid (mac_table td)\<rparr> else td)"

interpretation l2: first_claim_table claim_mac "\<lambda>td. hm_get (mac_table td)"
  by unfold_locales (auto simp: claim_mac_def hm_contains_key_iff hm.get_ins)

interpretation l3: first_claim_table "\<lambda>pid a td. snd (insert_route pid a td)"
    "\<lambda>td. hm_get (routing_table td)"
  by unfold_locales (auto simp: insert_route_def hm_contains_key_iff hm.get_ins)

lemma learn_path_claim:
  "learn_path from_ethernet pid pkt td =
    (case extract_ether_src from_ethernet pkt of None \<Rightarrow> td | Some src \<Rightarrow> claim_mac pid src td)"
  by (simp add: learn_path_def claim_mac_def split: option.splits)

section \<open>Peers a director can send to\<close>

definition director_peers :: "director_type \<Rightarrow> u16 set" where
  "director_peers d = (case d of Layer2 td \<Rightarrow> ran (hm_get (mac_table td))
     | Layer3 td \<Rightarrow> ran (hm_get (routing_table td)))"

lemma director_peers_new [simp]:
  "director_peers (Layer2 layer2_director_new) = {}"
  "director_peers (Layer3 layer3_director_new) = {}"
  by (auto simp: director_peers_def layer2_director_new_def layer3_director_new_def ran_def hm.get_new)

lemma director_peers_learn:
  "director_peers (Layer2 (learn_path f pid pkt td)) \<subseteq> insert pid (director_peers (Layer2 td))"
  using l2.owners_are_claimants [of "[(pid, m)]" td for m]
  by (auto simp: director_peers_def learn_path_claim split: option.splits)

lemma director_peers_insert_route:
  "director_peers (Layer3 (snd (insert_route pid a td))) \<subseteq> insert pid (director_peers (Layer3 td))"
  using l3.owners_are_claimants [of "[(pid, a)]" td] by (simp add: director_peers_def)

lemma get_path_peer: "get_path f pkt td = Some (Peer_Path pid) \<Longrightarrow> pid \<in> director_peers (Layer2 td)"
  by (auto simp: get_path_def director_peers_def intro: ranI split: option.splits if_splits)

lemma get_route_peer: "get_route f pkt td = Some pid \<Longrightarrow> pid \<in> director_peers (Layer3 td)"
  by (auto simp: get_route_def director_peers_def ran_def split: option.splits)

section \<open>Properties\<close>

definition demo_mac :: "u8 \<Rightarrow> mac" where
  "demo_mac n = (2, 0, 0, 0, 0, n)"

text \<open>A parser for the examples: the first byte is the last one of the destination address, the
  second that of the source.\<close>

fun demo_ethernet :: slicer where
  "demo_ethernet (d # s # rest) =
     Some \<lparr>link = Some (Ethernet2 (demo_mac s) (if d = 0xff then broadcast_mac else demo_mac d)), ip = None\<rparr>"
| "demo_ethernet _ = None"

text \<open>Layer 2 learning, over any sequence of frames from any peers: the table binds a MAC address
  to the peer that first sent a frame from it. Frames without an Ethernet source teach nothing.\<close>

lemma mac_learning_first_wins:
  "hm_get (mac_table (fold (\<lambda>(pid, pkt). learn_path from_ethernet pid pkt) frames layer2_director_new)) m =
    map_option fst (find (\<lambda>(pid, pkt). extract_ether_src from_ethernet pkt = Some m) frames)"
proof -
  let ?claims = "\<lambda>frames. concat (map (\<lambda>(pid, pkt). case extract_ether_src from_ethernet pkt of
    None \<Rightarrow> [] | Some src \<Rightarrow> [(pid, src)]) frames)"
  have learn: "fold (\<lambda>(pid, pkt). learn_path from_ethernet pid pkt) frames td =
      fold (\<lambda>(p, a). claim_mac p a) (?claims frames) td" for td frames
    by (induction frames arbitrary: td) (auto simp: learn_path_claim split: option.splits)
  have find: "map_option fst (find (\<lambda>(p, b). b = m) (?claims frames)) =
      map_option fst (find (\<lambda>(pid, pkt). extract_ether_src from_ethernet pkt = Some m) frames)" for frames
  proof (induction frames)
    case (Cons frame frames)
    then show ?case
      by (cases "extract_ether_src from_ethernet (snd frame)") (simp_all add: case_prod_beta)
  qed simp
  have "hm_get (mac_table layer2_director_new) m = None"
    by (simp add: layer2_director_new_def hm.get_new)
  from l2.first_claim_wins [OF this, of "?claims frames"] show ?thesis
    by (simp only: learn find)
qed

text \<open>C34. Layer 2 switching, after any history of frames from any peers: a frame to the broadcast
  address goes to every peer, a frame to any other address to the peer that first sent a frame
  from it. Everything else (an address nobody sent from, no Ethernet header, a parse error) goes
  nowhere; group addresses other than broadcast are never forwarded unless a frame claimed one as
  its source.\<close>

theorem layer2_switching:
  "get_path from_ethernet pkt
     (fold (\<lambda>(pid, frame). learn_path from_ethernet pid frame) frames layer2_director_new) =
   (case Option.bind (from_ethernet pkt) link of
      None \<Rightarrow> None
    | Some (Ethernet2 _ dst) \<Rightarrow>
        if dst = (255, 255, 255, 255, 255, 255) then Some Broadcast
        else map_option (\<lambda>(pid, _). Peer_Path pid)
          (find (\<lambda>(pid, frame). \<exists>d. Option.bind (from_ethernet frame) link = Some (Ethernet2 dst d)) frames))"
proof -
  have src: "extract_ether_src from_ethernet frame = Some m \<longleftrightarrow>
      (\<exists>d. Option.bind (from_ethernet frame) link = Some (Ethernet2 m d))" for frame m
    by (simp add: extract_ether_src_def split: option.splits link_slice.splits)
  have dst: "extract_ether_dst from_ethernet pkt = map_option dest_mac (Option.bind (from_ethernet pkt) link)"
    by (simp add: extract_ether_dst_def split: option.splits link_slice.splits)
  have owner: "(case map_option fst r of None \<Rightarrow> None | Some d \<Rightarrow> Some (Peer_Path d)) =
      map_option (\<lambda>(pid, _). Peer_Path pid) r" for r :: "(u16 \<times> byte_vec) option"
    by (cases r) auto
  show ?thesis
  proof (cases "Option.bind (from_ethernet pkt) link")
    case (Some l)
    then show ?thesis
      by (cases l) (simp only: get_path_def mac_learning_first_wins broadcast_mac_def src dst owner
          option.case option.map link_slice.case link_slice.sel)
  qed (simp add: get_path_def dst)
qed

text \<open>C35. Layer 3 routing, after any history of announcements: an IPv4 packet goes to the peer that
  first announced its destination address; later claims on the address by other peers change
  nothing. IPv6 packets and what the parser rejects go nowhere.\<close>

theorem layer3_routing:
  "get_route from_ip pkt
     (fold (\<lambda>(pid, addr) td. snd (insert_route pid addr td)) announcements layer3_director_new) =
   (case from_ip pkt of
      None \<Rightarrow> None
    | Some sliced \<Rightarrow> (case ip sliced of
        Some (Ipv4_Slice dst) \<Rightarrow> map_option fst (find (\<lambda>(pid, addr). addr = V4 dst) announcements)
      | _ \<Rightarrow> None))"
proof -
  have "hm_get (routing_table layer3_director_new) a = None" for a
    by (simp add: layer3_director_new_def hm.get_new)
  note first = l3.first_claim_wins [OF this, of announcements]
  show ?thesis
    by (auto simp: get_route_def extract_destination_address_def first
        split: option.splits internet_slice.splits)
qed

end
