(* ===== verification/Connection_Manager.thy ===== *)
theory Connection_Manager
  imports Peer_List Traffic_Director
begin

text \<open>
  \<open>connection_manager.rs\<close>: the task between the remotes and the local device. This theory holds its
  state, one definition per handler, and the turn of its \<open>select!\<close> loop; \<open>Connection_Manager_Props\<close>,
  \<open>Connection_Manager_Safety\<close> and \<open>Connection_Manager_Behaviour\<close> hold what is proved of them.

  The sending ends of the channels are the lists of the messages sent so far, oldest first. What a
  handler cannot decide itself (clock readings, iteration orders, whether a channel or the log file
  takes a message) comes in an \<open>env\<close>, one per turn of the loop. The functions of other crates
  (\<open>bincode\<close>, \<open>etherparse\<close>) come in a \<open>libs\<close>.
\<close>

section \<open>State and surroundings\<close>

record libs =
  bincode_serialize :: "messages \<Rightarrow> byte_vec option"
  bincode_deserialize :: "byte_vec \<Rightarrow> messages option"
  from_ethernet :: slicer
  from_ip :: slicer

text \<open>
  \<open>clk j i\<close> is the i-th clock reading in the j-th stage of the handler (one peer of a loop over
  peers is a stage); the \<open>_ok\<close> fields say whether the n-th message of a channel, or the n-th line of
  the log, is taken (\<open>Ok\<close>) or refused (\<open>Err\<close>).
\<close>

record env =
  clk :: "nat \<Rightarrow> nat \<Rightarrow> system_time"
  id_order :: "u16 hasher"
  conn_order :: "u16 \<Rightarrow> socket_addr hasher"
  local_ok :: "nat \<Rightarrow> bool"
  remotes_ok :: "nat \<Rightarrow> bool"
  log_ok :: "nat \<Rightarrow> bool"

text \<open>
  \<open>main\<close> wraps the manager in an \<open>Arc\<close> before anything else happens to it and moves this handle into
  the task; \<open>arc_handles\<close> is the number of handles, which \<open>Arc::get_mut\<close> looks at in every turn.
\<close>

record connection_manager =
  arc_handles :: nat
  interface_logger :: "string list option"
  udp_output_broadcast_to_remotes :: "outgoing_udp_packet list"
  packets_to_local :: "byte_vec list"
  cm_peer_list :: peer_list
  traffic_director :: director_type
  own_peer_id :: u16
  own_tun_ip :: "ipv4_addr option"
  maintenance_interval :: duration
  global_sequencer_interval :: duration
  keepalive_interval :: duration

definition connection_manager_new ::
    "(nat \<Rightarrow> nat \<Rightarrow> system_time) \<Rightarrow> settings_file \<Rightarrow> string list option \<Rightarrow> connection_manager" where
  "connection_manager_new ts settings logger =
     \<lparr>arc_handles = 1,
      interface_logger = logger,
      udp_output_broadcast_to_remotes = [],
      packets_to_local = [],
      cm_peer_list = peer_list_new ts (Some (config_peers settings)),
      traffic_director = (case local_type settings of
        Layer2_Local _ \<Rightarrow> Layer2 layer2_director_new
      | Layer3_Local _ \<Rightarrow> Layer3 layer3_director_new),
      own_peer_id = settings_peer_id settings,
      own_tun_ip = (case local_type settings of
        Layer3_Local tun_ip \<Rightarrow> Some tun_ip
      | Layer2_Local _ \<Rightarrow> None),
      maintenance_interval = from_secs 5,
      global_sequencer_interval = from_millis 1,
      keepalive_interval = from_secs 10\<rparr>"

section \<open>Sending\<close>

definition send_to_local :: "env \<Rightarrow> byte_vec \<Rightarrow> connection_manager \<Rightarrow> connection_manager outcome" where
  "send_to_local e b m =
     (if local_ok e (length (packets_to_local m))
      then Running (m\<lparr>packets_to_local := packets_to_local m @ [b]\<rparr>)
      else Panicked (Unwrap_Err ''packets_to_local.send'') m)"

definition send_to_remotes ::
    "env \<Rightarrow> outgoing_udp_packet \<Rightarrow> connection_manager \<Rightarrow> connection_manager outcome" where
  "send_to_remotes e out m =
     (if remotes_ok e (length (udp_output_broadcast_to_remotes m))
      then Running (m\<lparr>udp_output_broadcast_to_remotes := udp_output_broadcast_to_remotes m @ [out]\<rparr>)
      else Panicked (Unwrap_Err ''udp_output_broadcast_to_remotes.send'') m)"

text \<open>The log line \<open>{time_stamp},{sequence_number},{receiver_interface}\<close>.\<close>

function decimal :: "int \<Rightarrow> string" where
  "decimal n = (if n < 10 then [char_of (48 + n)] else decimal (n div 10) @ [char_of (48 + n mod 10)])"
  by pat_completeness auto
termination
  by (relation "measure nat") auto

declare decimal.simps [simp del]

definition log_line :: "duration \<Rightarrow> u64 \<Rightarrow> string \<Rightarrow> string" where
  "log_line time_stamp sequence_number receiver =
     decimal time_stamp @ '','' @ decimal (uint sequence_number) @ '','' @ receiver @ [CHR 0x0A]"

definition write_interface_log ::
    "env \<Rightarrow> system_time \<Rightarrow> string \<Rightarrow> u64 \<Rightarrow> connection_manager \<Rightarrow> connection_manager outcome" where
  "write_interface_log e now receiver sequence_number m =
     (case interface_logger m of
        None \<Rightarrow> Running m
      | Some if_log \<Rightarrow>
          (case duration_since now 0 of
             None \<Rightarrow> Panicked (Unwrap_Err ''duration_since'') m
           | Some time_stamp \<Rightarrow>
               if log_ok e (length if_log)
               then Running (m\<lparr>interface_logger :=
                 Some (if_log @ [log_line time_stamp sequence_number receiver])\<rparr>)
               else Panicked (Unwrap_Err ''if_log.write_all'') m))"

section \<open>Packets from remotes\<close>

text \<open>\<open>get_peer_sequencer\<close> is a reference into the peer list: what the loop did to the sequencer is
  written back, also when the loop panicked.\<close>

definition put_sequencer ::
    "u16 \<Rightarrow> (sequencer \<times> connection_manager) outcome \<Rightarrow> connection_manager outcome" where
  "put_sequencer pid r =
     (let put = (\<lambda>(s, m). m\<lparr>cm_peer_list := set_peer_sequencer pid s (cm_peer_list m)\<rparr>)
      in and_then r (\<lambda>x. Running (put x)) put)"

definition deliver :: "libs \<Rightarrow> env \<Rightarrow> packet \<Rightarrow> connection_manager \<Rightarrow> connection_manager outcome" where
  "deliver L e next_packet m =
     (let m1 = (case traffic_director m of
        Layer2 td \<Rightarrow> m\<lparr>traffic_director :=
          Layer2 (learn_path (from_ethernet L) (peer_id next_packet) (bytes next_packet) td)\<rparr>
      | Layer3 td \<Rightarrow> m)
      in send_to_local e (bytes next_packet) m1)"

definition handle_incoming_packet ::
    "libs \<Rightarrow> env \<Rightarrow> packet \<Rightarrow> connection_manager \<Rightarrow> connection_manager outcome" where
  "handle_incoming_packet L e pkt m =
     (case get_peer_sequencer (peer_id pkt) (cm_peer_list m) of
        Some s \<Rightarrow> put_sequencer (peer_id pkt)
          (while_next (deliver L e) (clk e 1) (insert_packet pkt s) m)
      | None \<Rightarrow> Running m)"

section \<open>Packets from the local device\<close>

text \<open>Numbering a packet for one peer and sending a copy to each of its connections: the block the
  source repeats for a known MAC address, for every peer of a broadcast and for a route.\<close>

definition transmit ::
    "libs \<Rightarrow> env \<Rightarrow> byte_vec \<Rightarrow> u16 \<Rightarrow> connection_manager \<Rightarrow> connection_manager outcome" where
  "transmit L e pkt pid m =
     (case get_peer_tx_counter pid (cm_peer_list m) of
        Inl p \<Rightarrow> Panicked p m
      | Inr counter \<Rightarrow>
          (case bincode_serialize L
              (Packet_Msg \<lparr>seq = counter, peer_id = own_peer_id m, bytes = pkt\<rparr>) of
             None \<Rightarrow> Panicked (Unwrap_Err ''serialize'') m
           | Some serialized \<Rightarrow>
               let m1 = m\<lparr>cm_peer_list := increment_peer_tx_counter pid (cm_peer_list m)\<rparr>
               in for_each
                    (\<lambda>addr. send_to_remotes e \<lparr>destination = addr, packet_bytes = serialized\<rparr>)
                    (get_peer_connections (conn_order e) pid (cm_peer_list m1)) m1))"

definition handle_packet_from_local ::
    "libs \<Rightarrow> env \<Rightarrow> byte_vec \<Rightarrow> connection_manager \<Rightarrow> connection_manager outcome" where
  "handle_packet_from_local L e pkt m =
     (case traffic_director m of
        Layer2 td \<Rightarrow>
          (case get_path (from_ethernet L) pkt td of
             Some (Peer_Path pid) \<Rightarrow> transmit L e pkt pid m
           | Some Broadcast \<Rightarrow>
               for_each (transmit L e pkt) (get_peer_ids (id_order e) (cm_peer_list m)) m
           | None \<Rightarrow> Running m)
      | Layer3 td \<Rightarrow>
          (case get_route (from_ip L) pkt td of
             Some pid \<Rightarrow> transmit L e pkt pid m
           | None \<Rightarrow> Running m))"

section \<open>Keepalives\<close>

definition own_keepalive :: "connection_manager \<Rightarrow> messages" where
  "own_keepalive m = Keepalive_Msg \<lparr>ka_peer_id = own_peer_id m, ka_tun_ip = own_tun_ip m\<rparr>"

definition send_keepalives ::
    "libs \<Rightarrow> env \<Rightarrow> socket_addr list \<Rightarrow> connection_manager \<Rightarrow> connection_manager outcome" where
  "send_keepalives L e sockets m =
     (case bincode_serialize L (own_keepalive m) of
        None \<Rightarrow> Panicked (Unwrap_Err ''serialize'') m
      | Some serialized \<Rightarrow>
          for_each (\<lambda>socket. send_to_remotes e \<lparr>destination = socket, packet_bytes = serialized\<rparr>)
            sockets m)"

definition handle_keepalive ::
    "libs \<Rightarrow> env \<Rightarrow> connection_manager \<Rightarrow> connection_manager outcome" where
  "handle_keepalive L e m =
     send_keepalives L e (get_all_connections (id_order e) (conn_order e) (cm_peer_list m)) m"

definition handle_instant_keepalive ::
    "libs \<Rightarrow> env \<Rightarrow> u16 \<Rightarrow> connection_manager \<Rightarrow> connection_manager outcome" where
  "handle_instant_keepalive L e target m =
     send_keepalives L e (get_peer_connections (conn_order e) target (cm_peer_list m)) m"

definition handle_incoming_keepalive ::
    "libs \<Rightarrow> env \<Rightarrow> keepalive \<Rightarrow> socket_addr \<Rightarrow> connection_manager \<Rightarrow> connection_manager outcome" where
  "handle_incoming_keepalive L e ka source_addr m =
     (let m1 = m\<lparr>cm_peer_list := add_peer (clk e 0) (ka_peer_id ka) source_addr (cm_peer_list m)\<rparr>
      in case traffic_director m1 of
           Layer2 td \<Rightarrow> Running m1
         | Layer3 td \<Rightarrow>
             (case ka_tun_ip ka of
                Some tun_ip \<Rightarrow>
                  let (is_new_route, td1) = insert_route (ka_peer_id ka) (V4 tun_ip) td;
                      m2 = m1\<lparr>traffic_director := Layer3 td1\<rparr>
                  in if is_new_route then handle_instant_keepalive L e (ka_peer_id ka) m2
                     else Running m2
              | None \<Rightarrow> Running m1))"

section \<open>The loop\<close>

definition handle_udp_packet ::
    "libs \<Rightarrow> env \<Rightarrow> incoming_unparsed_packet \<Rightarrow> connection_manager \<Rightarrow> connection_manager outcome" where
  "handle_udp_packet L e raw m =
     (case bincode_deserialize L (raw_bytes raw) of
        Some (Packet_Msg pkt) \<Rightarrow>
          chain (write_interface_log e (clk e 0 0) (receiver_interface raw) (seq pkt) m)
            (handle_incoming_packet L e pkt)
      | Some (Keepalive_Msg ka) \<Rightarrow> handle_incoming_keepalive L e ka (received_from raw) m
      | None \<Rightarrow> Running m)"

definition advance_peer ::
    "env \<Rightarrow> (nat \<Rightarrow> system_time) \<Rightarrow> u16 \<Rightarrow> connection_manager \<Rightarrow> connection_manager outcome" where
  "advance_peer e ts pid m =
     (case get_peer_sequencer pid (cm_peer_list m) of
        None \<Rightarrow> Running m
      | Some s \<Rightarrow>
          (case is_deadline_exceeded (ts 0) s of
             Inl p \<Rightarrow> Panicked p m
           | Inr exceeded \<Rightarrow>
               if exceeded then
                 (case advance_queue s of
                    Inl p \<Rightarrow> Panicked p m
                  | Inr s1 \<Rightarrow> put_sequencer pid
                      (while_next (\<lambda>next_packet. send_to_local e (bytes next_packet)) (later ts) s1 m))
               else Running m))"

definition handle_sequencer_tick :: "env \<Rightarrow> connection_manager \<Rightarrow> connection_manager outcome" where
  "handle_sequencer_tick e m =
     for_each (\<lambda>(j, pid). advance_peer e (clk e j) pid)
       (List.enumerate 0 (get_peer_ids (id_order e) (cm_peer_list m))) m"

text \<open>The queue lengths that maintenance reports to the debug log are left out.\<close>

definition handle_maintenance_tick :: "env \<Rightarrow> connection_manager \<Rightarrow> connection_manager outcome" where
  "handle_maintenance_tick e m =
     (case prune_stale_peers (clk e 0 0) (cm_peer_list m) of
        Inl p \<Rightarrow> Panicked p m
      | Inr pl \<Rightarrow>
          let m1 = m\<lparr>cm_peer_list := pl\<rparr>
          in case interface_logger m1 of
               Some if_log \<Rightarrow>
                 if log_ok e (length if_log) then Running m1
                 else Panicked (Unwrap_Err ''if_log.flush'') m1
             | None \<Rightarrow> Running m1)"

text \<open>The branches of \<open>select!\<close>; a receiving channel yields \<open>None\<close> once it is closed.\<close>

datatype cm_event =
    Raw_Udp "incoming_unparsed_packet option"
  | From_Local "byte_vec option"
  | Sequencer_Tick
  | Maintenance_Tick
  | Keepalive_Tick

definition select_branch ::
    "libs \<Rightarrow> env \<Rightarrow> cm_event \<Rightarrow> connection_manager \<Rightarrow> connection_manager outcome" where
  "select_branch L e ev m =
     (case ev of
        Raw_Udp (Some raw) \<Rightarrow> handle_udp_packet L e raw m
      | Raw_Udp None \<Rightarrow> Panicked (Explicit_Panic ''raw_udp_from_remotes channel was closed'') m
      | From_Local (Some pkt) \<Rightarrow> handle_packet_from_local L e pkt m
      | From_Local None \<Rightarrow> Panicked (Explicit_Panic ''packets_from_local channel was closed'') m
      | Sequencer_Tick \<Rightarrow> handle_sequencer_tick e m
      | Maintenance_Tick \<Rightarrow> handle_maintenance_tick e m
      | Keepalive_Tick \<Rightarrow> handle_keepalive L e m)"

definition arc_get_mut :: "connection_manager \<Rightarrow> connection_manager option" where
  "arc_get_mut m = (if arc_handles m = 1 then Some m else None)"

definition run_turn ::
    "libs \<Rightarrow> env \<Rightarrow> cm_event \<Rightarrow> connection_manager \<Rightarrow> connection_manager outcome" where
  "run_turn L e ev m =
     (case unwrap ''Arc::get_mut'' (arc_get_mut m) of
        Inl p \<Rightarrow> Panicked p m
      | Inr mut_self \<Rightarrow> select_branch L e ev mut_self)"

lemma run_turn_owned: "arc_handles m = 1 \<Longrightarrow> run_turn L e ev m = select_branch L e ev m"
  by (simp add: run_turn_def arc_get_mut_def)

definition run_loop ::
    "libs \<Rightarrow> (env \<times> cm_event) list \<Rightarrow> connection_manager \<Rightarrow> connection_manager outcome" where
  "run_loop L turns m = for_each (\<lambda>(e, ev). run_turn L e ev) turns m"

lemmas connection_manager_defs [mpconn_defs] =
  connection_manager_new_def send_to_local_def send_to_remotes_def log_line_def
  write_interface_log_def put_sequencer_def deliver_def handle_incoming_packet_def transmit_def
  handle_packet_from_local_def own_keepalive_def send_keepalives_def handle_keepalive_def
  handle_instant_keepalive_def handle_incoming_keepalive_def handle_udp_packet_def
  advance_peer_def handle_sequencer_tick_def handle_maintenance_tick_def select_branch_def arc_get_mut_def
  run_turn_def run_loop_def

end
