(* ===== verification/Connection_Manager_Props.thy ===== *)
theory Connection_Manager_Props
  imports Connection_Manager
begin

text \<open>
  The building blocks of the connection manager's handlers, what they leave alone, and the invariant
  every handler keeps.
\<close>

section \<open>Effects of the building blocks\<close>

lemma final_send_to_local [simp]:
  "cm_peer_list (final (send_to_local e b m)) = cm_peer_list m"
  "traffic_director (final (send_to_local e b m)) = traffic_director m"
  "arc_handles (final (send_to_local e b m)) = arc_handles m"
  by (simp_all add: send_to_local_def)

lemma final_send_to_remotes [simp]:
  "cm_peer_list (final (send_to_remotes e out m)) = cm_peer_list m"
  "traffic_director (final (send_to_remotes e out m)) = traffic_director m"
  "arc_handles (final (send_to_remotes e out m)) = arc_handles m"
  by (simp_all add: send_to_remotes_def)

lemma final_write_interface_log [simp]:
  "cm_peer_list (final (write_interface_log e now r n m)) = cm_peer_list m"
  "traffic_director (final (write_interface_log e now r n m)) = traffic_director m"
  "arc_handles (final (write_interface_log e now r n m)) = arc_handles m"
  by (simp_all add: write_interface_log_def split: option.splits)

lemma final_put_sequencer:
  "final (put_sequencer pid r) = (let (s, m) = final r in
     m\<lparr>cm_peer_list := set_peer_sequencer pid s (cm_peer_list m)\<rparr>)"
  by (cases r) (simp_all add: put_sequencer_def Let_def case_prod_beta)

lemma is_running_put_sequencer [simp]: "is_running (put_sequencer pid r) = is_running r"
  by (cases r) (simp_all add: put_sequencer_def Let_def)

lemma final_deliver_peers [simp]:
  "cm_peer_list (final (deliver L e p m)) = cm_peer_list m"
  "arc_handles (final (deliver L e p m)) = arc_handles m"
  by (simp_all add: deliver_def Let_def split: director_type.splits)

lemma director_peers_deliver:
  "director_peers (traffic_director (final (deliver L e p m))) \<subseteq>
    insert (peer_id p) (director_peers (traffic_director m))"
  using director_peers_learn by (auto simp: deliver_def Let_def split: director_type.splits)

lemma for_each_send_to_remotes [simp]:
  "cm_peer_list (final (for_each (\<lambda>a. send_to_remotes e (f a)) as m)) = cm_peer_list m"
  "traffic_director (final (for_each (\<lambda>a. send_to_remotes e (f a)) as m)) = traffic_director m"
  "arc_handles (final (for_each (\<lambda>a. send_to_remotes e (f a)) as m)) = arc_handles m"
proof -
  let ?P = "\<lambda>m'. cm_peer_list m' = cm_peer_list m \<and> traffic_director m' = traffic_director m \<and>
    arc_handles m' = arc_handles m"
  have "?P (final (for_each (\<lambda>a. send_to_remotes e (f a)) as m))"
    by (rule for_each_keeps [where P = ?P]) simp_all
  then show "cm_peer_list (final (for_each (\<lambda>a. send_to_remotes e (f a)) as m)) = cm_peer_list m"
    and "traffic_director (final (for_each (\<lambda>a. send_to_remotes e (f a)) as m)) = traffic_director m"
    and "arc_handles (final (for_each (\<lambda>a. send_to_remotes e (f a)) as m)) = arc_handles m"
    by simp_all
qed

section \<open>The invariant\<close>

text \<open>Every peer's sequencer is well-formed and holds packets of that peer only, the director sends to
  known peers only, and nobody else holds a handle of the manager.\<close>

definition cm_inv :: "connection_manager \<Rightarrow> bool" where
  "cm_inv m \<longleftrightarrow> arc_handles m = 1 \<and> peer_list_inv (cm_peer_list m) \<and>
     director_peers (traffic_director m) \<subseteq> known_peers (cm_peer_list m)"

lemma cm_inv_new [mpconn_inv]: "cm_inv (connection_manager_new ts settings logger)"
proof -
  have "peer_list_inv (peer_list_new ts cfg)" for cfg
    using seed_peers_inv by (simp add: peer_list_new_def Let_def split: option.splits)
  then show ?thesis
    by (auto simp: cm_inv_def connection_manager_new_def split: local_types.splits)
qed

text \<open>The drain loop, whatever its body does with the packets of the peer.\<close>

lemma drain_keeps_cm_inv:
  assumes inv: "cm_inv m" and s: "get_peer_sequencer pid (cm_peer_list m) = Some s0"
    and seq: "seq_inv s" and own: "\<And>k p. bt_lookup (packet_queue s) k = Some p \<Longrightarrow> peer_id p = pid"
    and body: "\<And>p m. peer_id p = pid \<Longrightarrow> cm_peer_list (final (body p m)) = cm_peer_list m \<and>
      arc_handles (final (body p m)) = arc_handles m \<and>
      director_peers (traffic_director (final (body p m))) \<subseteq>
        insert pid (director_peers (traffic_director m))"
  shows "cm_inv (final (put_sequencer pid (while_next body ts s m)))"
proof -
  let ?r = "while_next body ts s m"
  let ?P = "\<lambda>m'. cm_peer_list m' = cm_peer_list m \<and> arc_handles m' = 1 \<and>
    director_peers (traffic_director m') \<subseteq> known_peers (cm_peer_list m)"
  have pid: "pid \<in> known_peers (cm_peer_list m)"
    using s get_peer_sequencer_None_iff [of pid "cm_peer_list m"] by auto
  have "?P (final (for_each body (pending s) m))"
  proof (rule for_each_keeps [where P = ?P])
    show "?P m" using inv by (simp add: cm_inv_def)
    show "?P (final (body p m'))" if "p \<in> set (pending s)" and "?P m'" for p m'
      using body [of p m'] own [OF pending_lookup [OF seq that(1)]] that(2) pid by auto
  qed
  then have P: "?P (snd (final ?r))"
    using while_next_for_each [of body ts s m] by simp
  have "peer_list_inv (set_peer_sequencer pid (fst (final ?r)) (cm_peer_list m))"
  proof (rule set_peer_sequencer_inv)
    show "peer_list_inv (cm_peer_list m)" using inv by (simp add: cm_inv_def)
    show "seq_inv (fst (final ?r))" using seq by (rule seq_inv_while_next)
    show "peer_id p = pid" if "bt_lookup (packet_queue (fst (final ?r))) k = Some p" for k p
      using own [OF while_next_lookup [OF that]] .
  qed
  with P show ?thesis
    by (auto simp: final_put_sequencer cm_inv_def Let_def case_prod_beta)
qed

lemma cm_inv_handle_incoming_packet [mpconn_inv]:
  assumes "cm_inv m"
  shows "cm_inv (final (handle_incoming_packet L e pkt m))"
proof (cases "get_peer_sequencer (peer_id pkt) (cm_peer_list m)")
  case None
  with assms show ?thesis by (simp add: handle_incoming_packet_def)
next
  case (Some s)
  have pl: "peer_list_inv (cm_peer_list m)" using assms by (simp add: cm_inv_def)
  have "cm_inv (final (put_sequencer (peer_id pkt)
      (while_next (deliver L e) (clk e 1) (insert_packet pkt s) m)))"
  proof (rule drain_keeps_cm_inv [OF assms Some])
    show "seq_inv (insert_packet pkt s)"
      using peer_inv_seqD(1) [OF pl Some] by (rule seq_inv_insert)
    show "peer_id p = peer_id pkt" if "bt_lookup (packet_queue (insert_packet pkt s)) k = Some p" for k p
      using that peer_inv_seqD(2) [OF pl Some]
      by (auto simp: insert_packet_def bt.lookup_or_insert split: if_splits)
  qed (use director_peers_deliver in force)
  with Some show ?thesis by (simp add: handle_incoming_packet_def)
qed

lemma cm_inv_advance_peer [mpconn_inv]:
  assumes "cm_inv m"
  shows "cm_inv (final (advance_peer e ts pid m))"
proof (cases "get_peer_sequencer pid (cm_peer_list m)")
  case None
  with assms show ?thesis by (simp add: advance_peer_def)
next
  case (Some s)
  have pl: "peer_list_inv (cm_peer_list m)" using assms by (simp add: cm_inv_def)
  obtain s1 where s1: "advance_queue s = Inr s1" and q: "packet_queue s1 = packet_queue s"
    by (auto simp: advance_queue_eq split: option.splits)
  have "cm_inv (final (put_sequencer pid
      (while_next (\<lambda>p. send_to_local e (bytes p)) (later ts) s1 m)))"
    using peer_inv_seqD [OF pl Some] seq_inv_advance [OF _ s1]
    by (intro drain_keeps_cm_inv [OF assms Some]) (auto simp: q)
  with Some assms s1 show ?thesis
    by (auto simp: advance_peer_def split: sum.splits)
qed

lemma cm_inv_transmit [mpconn_inv]:
  "cm_inv m \<Longrightarrow> cm_inv (final (transmit L e pkt pid m))"
  by (auto simp: transmit_def cm_inv_def Let_def increment_peer_tx_counter_invs
      split: sum.splits option.splits)

lemma cm_inv_send_keepalives [mpconn_inv]:
  "cm_inv m \<Longrightarrow> cm_inv (final (send_keepalives L e as m))"
  by (simp add: send_keepalives_def cm_inv_def split: option.splits)

lemma cm_inv_handle_incoming_keepalive [mpconn_inv]:
  assumes "cm_inv m"
  shows "cm_inv (final (handle_incoming_keepalive L e ka a m))"
proof -
  define m1 where "m1 = m\<lparr>cm_peer_list := add_peer (clk e 0) (ka_peer_id ka) a (cm_peer_list m)\<rparr>"
  have m1: "cm_inv m1" and known: "ka_peer_id ka \<in> known_peers (cm_peer_list m1)"
    using assms by (auto simp: cm_inv_def m1_def add_peer_invs)
  have route: "cm_inv (m1\<lparr>traffic_director := Layer3 (snd (insert_route (ka_peer_id ka) ip td))\<rparr>)"
    if "traffic_director m = Layer3 td" for ip td
    using m1 known director_peers_insert_route [of "ka_peer_id ka" ip td] that
    by (auto simp: cm_inv_def m1_def)
  show ?thesis
    using m1 route unfolding handle_incoming_keepalive_def m1_def [symmetric]
    by (auto simp: Let_def handle_instant_keepalive_def cm_inv_send_keepalives case_prod_beta m1_def
        split: director_type.splits option.splits)
qed

lemma cm_inv_handle_udp_packet [mpconn_inv]:
  assumes "cm_inv m"
  shows "cm_inv (final (handle_udp_packet L e raw m))"
proof -
  have "cm_inv (final (write_interface_log e now r n m))" for now r n
    using assms by (simp add: cm_inv_def)
  then show ?thesis
    using assms unfolding handle_udp_packet_def
    by (auto intro!: final_and_then_keeps [where P = cm_inv] cm_inv_handle_incoming_packet
        cm_inv_handle_incoming_keepalive split: option.splits messages.splits)
qed

lemma cm_inv_handle_packet_from_local [mpconn_inv]:
  "cm_inv m \<Longrightarrow> cm_inv (final (handle_packet_from_local L e pkt m))"
  by (auto simp: handle_packet_from_local_def cm_inv_transmit
      intro!: for_each_keeps [where P = cm_inv] split: director_type.splits option.splits path.splits)

lemma cm_inv_handle_maintenance_tick [mpconn_inv]:
  "cm_inv m \<Longrightarrow> cm_inv (final (handle_maintenance_tick e m))"
  by (auto simp: handle_maintenance_tick_def cm_inv_def Let_def prune_stale_peers_invs
      prune_stale_peers_frame split: sum.splits option.splits)

lemma cm_inv_select_branch [mpconn_inv]:
  assumes "cm_inv m"
  shows "cm_inv (final (select_branch L e ev m))"
proof -
  have "cm_inv (final (handle_sequencer_tick e m))"
    unfolding handle_sequencer_tick_def
    using assms by (intro for_each_keeps [where P = cm_inv]) (auto intro: cm_inv_advance_peer)
  with assms show ?thesis
    by (auto simp: select_branch_def handle_keepalive_def cm_inv_handle_udp_packet
        cm_inv_handle_packet_from_local cm_inv_handle_maintenance_tick cm_inv_send_keepalives
        split: cm_event.splits option.splits)
qed

lemma cm_inv_owned: "cm_inv m \<Longrightarrow> run_turn L e ev m = select_branch L e ev m"
  by (simp add: cm_inv_def run_turn_owned)

lemma cm_inv_run_turn [mpconn_inv]: "cm_inv m \<Longrightarrow> cm_inv (final (run_turn L e ev m))"
  by (simp add: cm_inv_owned cm_inv_select_branch)

section \<open>The handlers in closed form\<close>

text \<open>As long as the channels take messages, each handler is an assignment to the state.\<close>

definition learn_all :: "libs \<Rightarrow> packet list \<Rightarrow> director_type \<Rightarrow> director_type" where
  "learn_all L ps d = (case d of
     Layer2 td \<Rightarrow> Layer2 (fold (\<lambda>p. learn_path (from_ethernet L) (peer_id p) (bytes p)) ps td)
   | Layer3 td \<Rightarrow> Layer3 td)"

lemma for_each_deliver:
  assumes "\<And>n. local_ok e n"
  shows "for_each (deliver L e) ps m = Running (m\<lparr>packets_to_local := packets_to_local m @ map bytes ps,
    traffic_director := learn_all L ps (traffic_director m)\<rparr>)"
proof (induction ps arbitrary: m)
  case Nil
  then show ?case by (simp add: learn_all_def split: director_type.splits)
next
  case (Cons p ps)
  with assms show ?case
    by (simp add: deliver_def Let_def send_to_local_def learn_all_def split: director_type.splits)
qed

lemma for_each_send_to_local:
  assumes "\<And>n. local_ok e n"
  shows "for_each (\<lambda>p. send_to_local e (bytes p)) ps m =
    Running (m\<lparr>packets_to_local := packets_to_local m @ map bytes ps\<rparr>)"
  using assms by (induction ps arbitrary: m) (simp_all add: send_to_local_def)

lemma for_each_send_to_remotes_eq:
  assumes "\<And>n. remotes_ok e n"
  shows "for_each (\<lambda>a. send_to_remotes e (f a)) as m =
    Running (m\<lparr>udp_output_broadcast_to_remotes := udp_output_broadcast_to_remotes m @ map f as\<rparr>)"
  using assms by (induction as arbitrary: m) (simp_all add: send_to_remotes_def)

lemma handle_incoming_packet_eq:
  assumes "\<And>n. local_ok e n" and "get_peer_sequencer (peer_id pkt) (cm_peer_list m) = Some s"
    and "seq_step (Arrive pkt (clk e 1)) s = (ds, s')"
  shows "handle_incoming_packet L e pkt m = Running (m\<lparr>
    packets_to_local := packets_to_local m @ map bytes ds,
    cm_peer_list := set_peer_sequencer (peer_id pkt) s' (cm_peer_list m),
    traffic_director := learn_all L ds (traffic_director m)\<rparr>)"
proof -
  from assms(3) have ds: "pending (insert_packet pkt s) = ds"
    and s': "drained (clk e 1) (insert_packet pkt s) = s'" by (simp_all add: Let_def)
  have "while_next (deliver L e) (clk e 1) (insert_packet pkt s) m = Running (s',
      m\<lparr>packets_to_local := packets_to_local m @ map bytes ds,
        traffic_director := learn_all L ds (traffic_director m)\<rparr>)"
    unfolding s' [symmetric]
    by (rule while_next_Running) (simp add: ds for_each_deliver assms(1))
  with assms(2) show ?thesis
    by (cases m) (simp add: handle_incoming_packet_def put_sequencer_def Let_def)
qed

lemma advance_peer_eq:
  assumes "\<And>n. local_ok e n" and "get_peer_sequencer pid (cm_peer_list m) = Some s"
    and "last_update s \<le> ts 0" and "seq_step (Expire (later ts)) s = (ds, s')"
  shows "advance_peer e ts pid m = Running (if deadline s < ts 0 - last_update s
    then m\<lparr>packets_to_local := packets_to_local m @ map bytes ds,
           cm_peer_list := set_peer_sequencer pid s' (cm_peer_list m)\<rparr>
    else m)"
proof -
  obtain s1 where s1: "advance_queue s = Inr s1" using advance_queue_eq by blast
  with assms(4) have ds: "pending s1 = ds" and s': "drained (later ts) s1 = s'" by simp_all
  have "while_next (\<lambda>p. send_to_local e (bytes p)) (later ts) s1 m = Running (s',
      m\<lparr>packets_to_local := packets_to_local m @ map bytes ds\<rparr>)"
    unfolding s' [symmetric]
    by (rule while_next_Running) (simp add: ds for_each_send_to_local assms(1))
  with assms(2,3) s1 show ?thesis
    by (simp add: advance_peer_def put_sequencer_def Let_def is_deadline_exceeded_def
        duration_since_def)
qed

lemma transmit_eq:
  assumes "\<And>n. remotes_ok e n" and "get_peer_tx_counter pid (cm_peer_list m) = Inr c"
    and "bincode_serialize L (Packet_Msg \<lparr>seq = c, peer_id = own_peer_id m, bytes = pkt\<rparr>) = Some b"
  shows "transmit L e pkt pid m = Running (m\<lparr>
    udp_output_broadcast_to_remotes := udp_output_broadcast_to_remotes m @
      map (\<lambda>a. \<lparr>destination = a, packet_bytes = b\<rparr>)
        (get_peer_connections (conn_order e) pid (cm_peer_list m)),
    cm_peer_list := increment_peer_tx_counter pid (cm_peer_list m)\<rparr>)"
proof -
  have "get_peer_connections (conn_order e) pid (increment_peer_tx_counter pid pl) =
      get_peer_connections (conn_order e) pid pl" for pl
    by (simp add: get_peer_connections_def get_increment_peer_tx_counter increment_tx_counter_def
        split: option.splits)
  with assms show ?thesis
    by (simp add: transmit_def Let_def for_each_send_to_remotes_eq)
qed

lemma send_keepalives_eq:
  assumes "\<And>n. remotes_ok e n" and "bincode_serialize L (own_keepalive m) = Some b"
  shows "send_keepalives L e as m = Running (m\<lparr>
    udp_output_broadcast_to_remotes := udp_output_broadcast_to_remotes m @
      map (\<lambda>a. \<lparr>destination = a, packet_bytes = b\<rparr>) as\<rparr>)"
  using assms by (simp add: send_keepalives_def for_each_send_to_remotes_eq)

end
