(* ===== verification/Demo_Node.thy ===== *)
theory Demo_Node
  imports Connection_Manager
begin

text \<open>
  Concrete surroundings for the examples that evaluate the model: a codec in place of \<open>bincode\<close>,
  packet parsers in place of \<open>etherparse\<close>, a clock that stands still, and settings of two nodes.
\<close>

section \<open>A codec\<close>

text \<open>Numbers are written as one byte per bit, lowest first.\<close>

definition put_bits :: "'a :: len word \<Rightarrow> byte_vec" where
  "put_bits w = map (\<lambda>i. if bit w i then 1 else 0) [0..<LENGTH('a)]"

definition get_bits :: "byte_vec \<Rightarrow> 'a :: len word" where
  "get_bits bs = horner_sum of_bool 2 (map (\<lambda>b. b \<noteq> 0) bs)"

lemma length_put_bits [simp]: "length (put_bits (w :: 'a :: len word)) = LENGTH('a)"
  by (simp add: put_bits_def)

lemma get_put_bits [simp]: "get_bits (put_bits w) = (w :: 'a :: len word)"
proof -
  have "map ((\<lambda>b. b \<noteq> 0) \<circ> (\<lambda>i. if bit w i then (1 :: u8) else 0)) [0..<LENGTH('a)] =
      map (bit w) [0..<LENGTH('a)]" by simp
  then have "get_bits (put_bits w) = horner_sum of_bool (2 :: 'a word) (map (bit w) [0..<LENGTH('a)])"
    by (simp only: get_bits_def put_bits_def map_map)
  then show ?thesis by (simp add: horner_sum_bit_eq_take_bit)
qed

fun demo_serialize :: "messages \<Rightarrow> byte_vec option" where
  "demo_serialize (Packet_Msg p) = Some (0 # put_bits (seq p) @ put_bits (peer_id p) @ bytes p)"
| "demo_serialize (Keepalive_Msg k) = Some (1 # put_bits (ka_peer_id k) @
     (case ka_tun_ip k of None \<Rightarrow> [] | Some a \<Rightarrow> put_bits a))"

fun demo_deserialize :: "byte_vec \<Rightarrow> messages option" where
  "demo_deserialize [] = None"
| "demo_deserialize (tag # bs) =
     (if tag = 0 \<and> 80 \<le> length bs then Some (Packet_Msg
        \<lparr>seq = get_bits (take 64 bs), peer_id = get_bits (take 16 (drop 64 bs)), bytes = drop 80 bs\<rparr>)
      else if tag = 1 \<and> 16 \<le> length bs then Some (Keepalive_Msg
        \<lparr>ka_peer_id = get_bits (take 16 bs),
         ka_tun_ip = (if drop 16 bs = [] then None else Some (get_bits (drop 16 bs)))\<rparr>)
      else None)"

lemma demo_round_trip [simp]: "demo_serialize msg = Some b \<Longrightarrow> demo_deserialize b = Some msg"
proof (cases msg)
  case (Keepalive_Msg k)
  moreover have "put_bits (w :: ipv4_addr) \<noteq> []" for w
    using length_put_bits [of w] by (metis len_not_eq_0 list.size(3))
  moreover assume "demo_serialize msg = Some b"
  ultimately show ?thesis by (auto split: option.splits)
qed auto

section \<open>Surroundings\<close>

text \<open>The first byte of a packet stands for its destination address, 0 for none.\<close>

fun demo_ip :: slicer where
  "demo_ip (d # rest) = Some \<lparr>link = None, ip = Some (Ipv4_Slice (0x0A000000 + ucast d))\<rparr>"
| "demo_ip [] = None"

definition demo_libs :: libs where
  "demo_libs = \<lparr>bincode_serialize = demo_serialize, bincode_deserialize = demo_deserialize,
     from_ethernet = demo_ethernet, from_ip = demo_ip\<rparr>"

definition demo_env :: "system_time \<Rightarrow> env" where
  "demo_env t = \<lparr>clk = (\<lambda>_ _. t), id_order = unat, conn_order = (\<lambda>_ _. 0),
     local_ok = (\<lambda>_. True), remotes_ok = (\<lambda>_. True), log_ok = (\<lambda>_. True)\<rparr>"

text \<open>Node 1 is configured with node 2, under two addresses; node 2, a server, has no peers configured.\<close>

definition demo_client :: settings_file where
  "demo_client = \<lparr>config_peers = [\<lparr>addresses = [demo_socket 1, demo_socket 2], config_id = 2\<rparr>],
     keep_alive_interval = 1, local_type = Layer3_Local 0x0A000001,
     remotes = [UDP ''eth0'' None 10000 None, UDPLz4 ''wlan0'' None 10000 (Some False)],
     settings_peer_id = 1\<rparr>"

definition demo_server :: settings_file where
  "demo_server = \<lparr>config_peers = [],
     keep_alive_interval = 1, local_type = Layer3_Local 0x0A000002,
     remotes = [UDP ''eth0'' None 10000 None], settings_peer_id = 2\<rparr>"

definition demo_manager :: connection_manager where
  "demo_manager = connection_manager_new (\<lambda>_ _. 0) demo_client (Some [])"

text \<open>A datagram that carries a message.\<close>

definition demo_datagram :: "messages \<Rightarrow> incoming_unparsed_packet" where
  "demo_datagram msg = \<lparr>receiver_interface = ''eth0'', received_from = demo_socket 1,
     raw_bytes = the (demo_serialize msg)\<rparr>"

lemma demo_datagram_decodes [simp]:
  "bincode_deserialize demo_libs (raw_bytes (demo_datagram msg)) = Some msg"
proof -
  obtain b where "demo_serialize msg = Some b" by (cases msg) simp_all
  then show ?thesis by (simp add: demo_libs_def demo_datagram_def)
qed

end
