(* ===== verification/Connection_Manager_Safety.thy ===== *)
theory Connection_Manager_Safety
  imports Connection_Manager_Props Demo_Node
begin

text \<open>
  The connection manager's loop as a transition system, and what holds in every state it reaches:
  its invariant, and that it never panics as long as its surroundings behave (the clock does not
  run backwards, the channels and the log accept messages, \<open>bincode\<close> serializes).
\<close>

section \<open>Surroundings that behave\<close>

text \<open>All clock readings of a turn lie in \<open>{t..t'}\<close>, and everything sent is accepted.\<close>

definition sane_env :: "system_time \<Rightarrow> system_time \<Rightarrow> env \<Rightarrow> bool" where
  "sane_env t t' e \<longleftrightarrow> (\<forall>j i. t \<le> clk e j i \<and> clk e j i \<le> t') \<and>
     (\<forall>n. local_ok e n) \<and> (\<forall>n. remotes_ok e n) \<and> (\<forall>n. log_ok e n)"

lemma sane_envD:
  assumes "sane_env t t' e"
  shows "t \<le> clk e j i" and "clk e j i \<le> t'" and "local_ok e n" and "remotes_ok e n" and "log_ok e n"
    and "t \<le> t'"
  using assms order_trans [of t "clk e 0 0" t'] by (auto simp: sane_env_def)

definition serializes :: "libs \<Rightarrow> bool" where
  "serializes L \<longleftrightarrow> (\<forall>msg. \<exists>b. bincode_serialize L msg = Some b)"

lemma serializesE:
  assumes "serializes L"
  obtains b where "bincode_serialize L msg = Some b"
  using assms by (auto simp: serializes_def)

text \<open>The receiving channels have not been closed.\<close>

fun open_event :: "cm_event \<Rightarrow> bool" where
  "open_event (Raw_Udp r) = (r \<noteq> None)"
| "open_event (From_Local r) = (r \<noteq> None)"
| "open_event _ = True"

definition cm_stamped :: "system_time \<Rightarrow> connection_manager \<Rightarrow> bool" where
  "cm_stamped t m = peer_list_stamped t (cm_peer_list m)"

lemma cm_stamped_mono: "cm_stamped t m \<Longrightarrow> t \<le> t' \<Longrightarrow> cm_stamped t' m"
  by (auto simp: cm_stamped_def intro: peer_list_stamped_mono)

text \<open>What every handler has to establish.\<close>

definition safe :: "system_time \<Rightarrow> connection_manager outcome \<Rightarrow> bool" where
  "safe t' r \<longleftrightarrow> is_running r \<and> cm_stamped t' (final r)"

lemma safe_Running [simp]: "safe t' (Running m) = cm_stamped t' m"
  by (simp add: safe_def)

lemma safe_chain: "safe t r \<Longrightarrow> (\<And>m. cm_stamped t m \<Longrightarrow> r = Running m \<Longrightarrow> safe t' (f m)) \<Longrightarrow> safe t' (chain r f)"
  by (cases r) (simp_all add: safe_def)

section \<open>No handler panics\<close>

lemma seq_step_last_update:
  assumes "\<And>i. readings ev i \<le> t" and "last_update s \<le> t"
  shows "last_update (snd (seq_step ev s)) \<le> t"
proof -
  have "last_update (prepared ev s) = last_update s"
    by (cases ev) (simp_all add: prepared_def advance_queue_eq split: option.splits)
  with assms show ?thesis
    unfolding seq_step_prepared drained_def by (simp add: while_next_last_update)
qed

lemma safe_write_interface_log:
  assumes "sane_env t t' e" and "0 \<le> now" and "cm_stamped t m"
  shows "safe t (write_interface_log e now r n m)"
  using assms by (auto simp: write_interface_log_def duration_since_def sane_envD cm_stamped_def
      split: option.splits)

lemma safe_handle_incoming_packet:
  assumes "sane_env t t' e" and "cm_stamped t m"
  shows "safe t' (handle_incoming_packet L e pkt m)"
proof (cases "get_peer_sequencer (peer_id pkt) (cm_peer_list m)")
  case None
  with assms show ?thesis
    by (simp add: handle_incoming_packet_def cm_stamped_mono sane_envD(6))
next
  case (Some s)
  obtain ds s' where st: "seq_step (Arrive pkt (clk e 1)) s = (ds, s')" by fastforce
  have pl: "peer_list_stamped t' (cm_peer_list m)"
    using assms by (metis cm_stamped_def cm_stamped_mono sane_envD(6))
  have "last_update (snd (seq_step (Arrive pkt (clk e 1)) s)) \<le> t'"
    using sane_envD [OF assms(1)] peer_stamped_seqD [OF pl Some] by (intro seq_step_last_update) simp_all
  with st pl have "peer_list_stamped t' (set_peer_sequencer (peer_id pkt) s' (cm_peer_list m))"
    by (simp add: set_peer_sequencer_stamped)
  then show ?thesis
    using handle_incoming_packet_eq [OF sane_envD(3) [OF assms(1)] Some st] by (simp add: cm_stamped_def)
qed

lemma safe_transmit:
  assumes "sane_env t t' e" and "serializes L" and "pid \<in> known_peers (cm_peer_list m)"
    and "cm_stamped t' m"
  shows "safe t' (transmit L e pkt pid m)"
proof -
  from assms(3) obtain c where c: "get_peer_tx_counter pid (cm_peer_list m) = Inr c"
    by (metis get_peer_tx_counter_Inl_iff sum.exhaust)
  obtain b where "bincode_serialize L
      (Packet_Msg \<lparr>seq = c, peer_id = own_peer_id m, bytes = pkt\<rparr>) = Some b"
    using assms(2) by (rule serializesE)
  from transmit_eq [OF sane_envD(4) [OF assms(1)] c this] assms(4) show ?thesis
    by (simp add: cm_stamped_def increment_peer_tx_counter_invs)
qed

lemma safe_send_keepalives:
  assumes "sane_env t t' e" and "serializes L" and "cm_stamped t' m"
  shows "safe t' (send_keepalives L e as m)"
proof -
  obtain b where "bincode_serialize L (own_keepalive m) = Some b"
    using assms(2) by (rule serializesE)
  from send_keepalives_eq [OF sane_envD(4) [OF assms(1)] this] assms(3) show ?thesis
    by (simp add: cm_stamped_def)
qed

lemma known_peers_transmit [simp]:
  "known_peers (cm_peer_list (final (transmit L e pkt pid m))) = known_peers (cm_peer_list m)"
  by (auto simp: transmit_def Let_def split: sum.splits option.splits)

lemma safe_broadcast:
  assumes "sane_env t t' e" and "serializes L" and "set ids \<subseteq> known_peers (cm_peer_list m)"
    and "cm_stamped t' m"
  shows "safe t' (for_each (transmit L e pkt) ids m)"
proof -
  let ?P = "\<lambda>m'. known_peers (cm_peer_list m') = known_peers (cm_peer_list m) \<and> cm_stamped t' m'"
  have step: "is_running (transmit L e pkt x m') \<and> ?P (final (transmit L e pkt x m'))"
    if "x \<in> set ids" and "?P m'" for x m'
    using safe_transmit [OF assms(1,2), of x m' pkt] that assms(3) by (auto simp: safe_def)
  have "is_running (for_each (transmit L e pkt) ids m)"
    by (rule for_each_running [where P = ?P]) (use step assms in auto)
  moreover have "?P (final (for_each (transmit L e pkt) ids m))"
    by (rule for_each_keeps [where P = ?P]) (use step assms in auto)
  ultimately show ?thesis by (simp add: safe_def)
qed

lemma safe_handle_packet_from_local:
  assumes "sane_env t t' e" and "serializes L" and "cm_inv m" and "cm_stamped t m"
  shows "safe t' (handle_packet_from_local L e pkt m)"
proof -
  have m: "cm_stamped t' m" using assms by (metis cm_stamped_mono sane_envD(6))
  have "safe t' (transmit L e pkt pid m)" if "pid \<in> director_peers (traffic_director m)" for pid
    using that assms(3) m by (intro safe_transmit [OF assms(1,2)]) (auto simp: cm_inv_def)
  moreover have "safe t' (for_each (transmit L e pkt) (get_peer_ids h (cm_peer_list m)) m)" for h
    using m by (intro safe_broadcast [OF assms(1,2)]) simp_all
  ultimately show ?thesis
    using m get_path_peer [of "from_ethernet L" pkt] get_route_peer [of "from_ip L" pkt]
    by (auto simp: handle_packet_from_local_def split: director_type.splits option.splits path.splits)
qed

lemma safe_handle_incoming_keepalive:
  assumes "sane_env t t' e" and "serializes L" and "cm_stamped t m"
  shows "safe t' (handle_incoming_keepalive L e ka a m)"
proof -
  define m1 where "m1 = m\<lparr>cm_peer_list := add_peer (clk e 0) (ka_peer_id ka) a (cm_peer_list m)\<rparr>"
  have "peer_list_stamped t' (cm_peer_list m)"
    using assms by (metis cm_stamped_def cm_stamped_mono sane_envD(6))
  then have "cm_stamped t' m1"
    using sane_envD [OF assms(1)] by (simp add: m1_def cm_stamped_def add_peer_stamped)
  moreover then have "cm_stamped t' (m1\<lparr>traffic_director := d\<rparr>)" for d
    by (simp add: cm_stamped_def)
  ultimately show ?thesis
    unfolding handle_incoming_keepalive_def m1_def [symmetric]
    by (auto simp: Let_def handle_instant_keepalive_def safe_send_keepalives [OF assms(1,2)]
        case_prod_beta split: director_type.splits option.splits)
qed

lemma safe_handle_udp_packet:
  assumes "sane_env t t' e" and "serializes L" and "0 \<le> t" and "cm_stamped t m"
  shows "safe t' (handle_udp_packet L e raw m)"
proof -
  have "0 \<le> clk e 0 0" using assms sane_envD(1) [of t t' e 0 0] by linarith
  note log = safe_write_interface_log [OF assms(1) this assms(4)]
  show ?thesis
    unfolding handle_udp_packet_def
    using assms cm_stamped_mono [OF assms(4) sane_envD(6) [OF assms(1)]]
    by (auto intro!: safe_chain [OF log] safe_handle_incoming_packet safe_handle_incoming_keepalive
        split: option.splits messages.splits)
qed

text \<open>A tick visits every peer once, so that each deadline is compared with a stamp from before
  the tick.\<close>

lemma advance_peer_safe:
  assumes "sane_env t t' e" and "cm_stamped t' m"
    and "\<And>s. get_peer_sequencer pid (cm_peer_list m) = Some s \<Longrightarrow> last_update s \<le> t"
  shows "safe t' (advance_peer e (clk e j) pid m) \<and>
    (\<forall>q. q \<noteq> pid \<longrightarrow> get_peer_sequencer q (cm_peer_list (final (advance_peer e (clk e j) pid m))) =
      get_peer_sequencer q (cm_peer_list m))"
proof (cases "get_peer_sequencer pid (cm_peer_list m)")
  case None
  with assms show ?thesis by (simp add: advance_peer_def)
next
  case (Some s)
  obtain ds s' where st: "seq_step (Expire (later (clk e j))) s = (ds, s')" by fastforce
  have now: "last_update s \<le> clk e j 0"
    using assms(3) [OF Some] sane_envD(1) [OF assms(1)] by (meson order_trans)
  then have "last_update s \<le> t'" using sane_envD(2) [OF assms(1)] by (meson order_trans)
  then have "last_update (snd (seq_step (Expire (later (clk e j))) s)) \<le> t'"
    using sane_envD(2) [OF assms(1)] by (intro seq_step_last_update) (simp_all add: later_def)
  with st assms(2) have "peer_list_stamped t' (set_peer_sequencer pid s' (cm_peer_list m))"
    by (simp add: set_peer_sequencer_stamped cm_stamped_def)
  then show ?thesis
    using assms(2) advance_peer_eq [OF sane_envD(3) [OF assms(1)] Some now st]
    by (auto simp: cm_stamped_def get_peer_sequencer_def get_set_peer_sequencer)
qed

lemma advance_peers_safe:
  assumes "sane_env t t' e" and "distinct (map snd jobs)" and "cm_stamped t' m"
    and "\<And>pid s. pid \<in> set (map snd jobs) \<Longrightarrow> get_peer_sequencer pid (cm_peer_list m) = Some s \<Longrightarrow>
      last_update s \<le> t"
  shows "safe t' (for_each (\<lambda>(j, pid). advance_peer e (clk e j) pid) jobs m)"
  using assms(2-)
proof (induction jobs arbitrary: m)
  case Nil
  then show ?case by simp
next
  case (Cons job jobs)
  obtain j pid where job: "job = (j, pid)" by (cases job)
  let ?r = "advance_peer e (clk e j) pid m"
  have r: "safe t' ?r" and other: "q \<noteq> pid \<Longrightarrow>
      get_peer_sequencer q (cm_peer_list (final ?r)) = get_peer_sequencer q (cm_peer_list m)" for q
    using advance_peer_safe [OF assms(1), of m pid j] Cons.prems job by auto
  have "safe t' (for_each (\<lambda>(j, pid). advance_peer e (clk e j) pid) jobs m')" if "?r = Running m'" for m'
  proof (rule Cons.IH)
    show "cm_stamped t' m'" using r that by simp
    show "last_update s \<le> t"
      if "q \<in> set (map snd jobs)" "get_peer_sequencer q (cm_peer_list m') = Some s" for q s
    proof -
      have "q \<noteq> pid" using that(1) Cons.prems(1) job by auto
      with other [of q] that \<open>?r = Running m'\<close> have "get_peer_sequencer q (cm_peer_list m) = Some s"
        by simp
      with that(1) show ?thesis using Cons.prems(3) [of q s] by simp
    qed
  qed (use Cons.prems in simp)
  with r show ?case by (auto simp: job intro: safe_chain)
qed

lemma safe_handle_sequencer_tick:
  assumes "sane_env t t' e" and "cm_stamped t m"
  shows "safe t' (handle_sequencer_tick e m)"
  unfolding handle_sequencer_tick_def
proof (rule advance_peers_safe [OF assms(1)])
  show "cm_stamped t' m" using assms by (metis cm_stamped_mono sane_envD(6))
qed (use assms(2) peer_stamped_seqD in \<open>auto simp: cm_stamped_def\<close>)

lemma safe_handle_maintenance_tick:
  assumes "sane_env t t' e" and "cm_stamped t m"
  shows "safe t' (handle_maintenance_tick e m)"
proof -
  have "peer_stamped (clk e 0 0) peer" if "peer_stamped t peer" for peer
    using that sane_envD(1) [OF assms(1)] by (rule peer_stamped_mono)
  then have "hm_all (\<lambda>_ peer. hm_all (\<lambda>_ t. t \<le> clk e 0 0) (connections peer)) (peers (cm_peer_list m))"
    using assms(2) by (auto simp: cm_stamped_def peer_list_stamped_def peer_stamped_def elim!: hm_all_mono)
  then obtain pl where pl: "prune_stale_peers (clk e 0 0) (cm_peer_list m) = Inr pl"
    by (simp add: prune_stale_peers_Inr_iff)
  have "peer_list_stamped t' pl"
    using assms prune_stale_peers_invs(2) [OF pl] by (metis cm_stamped_def cm_stamped_mono sane_envD(6))
  with pl show ?thesis
    by (auto simp: handle_maintenance_tick_def Let_def cm_stamped_def sane_envD [OF assms(1)]
        split: option.splits)
qed

lemma safe_run_turn:
  assumes "sane_env t t' e" and "serializes L" and "open_event ev" and "0 \<le> t"
    and "cm_inv m" and "cm_stamped t m"
  shows "safe t' (run_turn L e ev m)"
  using assms cm_stamped_mono [OF assms(6) sane_envD(6) [OF assms(1)]]
  by (cases ev) (auto simp: cm_inv_owned select_branch_def safe_handle_udp_packet safe_handle_packet_from_local
      safe_handle_sequencer_tick safe_handle_maintenance_tick handle_keepalive_def safe_send_keepalives)

section \<open>The loop as a transition system\<close>

text \<open>A state is the time and the outcome so far. \<open>cm_turn\<close> is a turn in any surroundings,
  \<open>cm_step\<close> one in surroundings that behave.\<close>

type_synonym cm_state = "system_time \<times> connection_manager outcome"

inductive cm_turn :: "libs \<Rightarrow> cm_state \<Rightarrow> cm_state \<Rightarrow> bool" for L where
  "cm_turn L (t, Running m) (t', run_turn L e ev m)"

inductive cm_step :: "libs \<Rightarrow> cm_state \<Rightarrow> cm_state \<Rightarrow> bool" for L where
  "sane_env t t' e \<Longrightarrow> open_event ev \<Longrightarrow> cm_step L (t, Running m) (t', run_turn L e ev m)"

inductive_cases cm_turnE: "cm_turn L x y"
inductive_cases cm_stepE: "cm_step L x y"
inductive_simps cm_step_panicked [simp]: "cm_step L (t, Panicked p m) y"

text \<open>The manager is made at time \<open>t\<close>, with readings of the clock up to then.\<close>

inductive cm_init :: "cm_state \<Rightarrow> bool" where
  "0 \<le> t \<Longrightarrow> (\<And>j i. ts j i \<le> t) \<Longrightarrow> cm_init (t, Running (connection_manager_new ts settings logger))"

definition cm_good :: "cm_state \<Rightarrow> bool" where
  "cm_good x \<longleftrightarrow> 0 \<le> fst x \<and> is_running (snd x) \<and> cm_inv (final (snd x)) \<and> cm_stamped (fst x) (final (snd x))"

interpretation any_turns: invariant_system cm_init "cm_turn L" "\<lambda>x. cm_inv (final (snd x))" for L
  by unfold_locales (auto elim!: cm_init.cases cm_turnE intro: cm_inv_new cm_inv_run_turn)

lemma cm_good_step:
  assumes "serializes L" and "cm_good x" and "cm_step L x y"
  shows "cm_good y"
  using assms(3)
proof (cases rule: cm_step.cases)
  case (1 t t' e ev m)
  have "safe t' (run_turn L e ev m)"
    using assms(1,2) 1 by (intro safe_run_turn) (auto simp: cm_good_def)
  moreover have "cm_inv (final (run_turn L e ev m))"
    using assms(2) 1 by (intro cm_inv_run_turn) (simp add: cm_good_def)
  moreover have "0 \<le> t'"
    using assms(2) 1 sane_envD(6) [of t t' e] by (simp add: cm_good_def)
  ultimately show ?thesis using 1 by (simp add: cm_good_def safe_def)
qed

interpretation sane_turns: invariant_system cm_init "cm_step L" "\<lambda>x. serializes L \<longrightarrow> cm_good x" for L
proof
  show "serializes L \<longrightarrow> cm_good x" if "cm_init x" for x
    using that
  proof cases
    case (1 t ts settings logger)
    have "cm_stamped t (connection_manager_new ts settings logger)"
      using 1(3) by (simp add: cm_stamped_def connection_manager_new_def peer_list_new_invs)
    with 1 show ?thesis by (simp add: cm_good_def cm_inv_new)
  qed
  show "serializes L \<longrightarrow> cm_good y" if "serializes L \<longrightarrow> cm_good x" and "cm_step L x y" for x y
    using that cm_good_step by blast
qed

section \<open>Which panics are possible at all\<close>

text \<open>In any surroundings, whatever the clock and the channels do: no \<open>unwrap\<close> of a \<open>None\<close>. The
  manager's handle is the only one, the peer whose counter is read is known, the queue an entry is
  popped from is not empty.\<close>

definition not_none :: "panic \<Rightarrow> bool" where
  "not_none p = (case p of Unwrap_None _ \<Rightarrow> False | _ \<Rightarrow> True)"

abbreviation none_free :: "connection_manager outcome \<Rightarrow> bool" where
  "none_free \<equiv> only_panics not_none"

lemma not_none_simps [simp]:
  "not_none (Unwrap_Err w)" "not_none (Explicit_Panic w)" "\<not> not_none (Unwrap_None w)"
  by (simp_all add: not_none_def)

lemma none_free_sends [simp]:
  "none_free (send_to_local e b m)"
  "none_free (send_to_remotes e out m)"
  "none_free (write_interface_log e now r n m)"
  "none_free (deliver L e p m)"
  by (simp_all add: send_to_local_def send_to_remotes_def write_interface_log_def deliver_def Let_def
      split: option.splits director_type.splits)

lemma none_free_send_keepalives [simp]: "none_free (send_keepalives L e as m)"
  by (auto simp: send_keepalives_def intro: for_each_only_panics [where P = "\<lambda>_. True"]
      split: option.splits)

lemma none_free_put_sequencer [simp]:
  "none_free (put_sequencer pid r) = only_panics not_none r"
  by (cases r) (simp_all add: put_sequencer_def Let_def)

lemma none_free_handle_incoming_packet [simp]: "none_free (handle_incoming_packet L e pkt m)"
  by (simp add: handle_incoming_packet_def while_next_only_panics split: option.splits)

lemma none_free_advance_peer [simp]: "none_free (advance_peer e ts pid m)"
  by (auto simp: advance_peer_def while_next_only_panics advance_queue_eq is_deadline_exceeded_def
      split: option.splits sum.splits)

lemma none_free_transmit:
  "pid \<in> known_peers (cm_peer_list m) \<Longrightarrow> none_free (transmit L e pkt pid m)"
  using get_peer_tx_counter_Inl_iff [of pid "cm_peer_list m"]
  by (auto simp: transmit_def Let_def intro: for_each_only_panics [where P = "\<lambda>_. True"]
      split: sum.splits option.splits)

lemma none_free_handle_packet_from_local:
  assumes "cm_inv m"
  shows "none_free (handle_packet_from_local L e pkt m)"
proof -
  have "none_free (transmit L e pkt pid m)" if "pid \<in> director_peers (traffic_director m)" for pid
    using that assms by (intro none_free_transmit) (auto simp: cm_inv_def)
  moreover have "none_free (for_each (transmit L e pkt) (get_peer_ids h (cm_peer_list m)) m)" for h
    by (rule for_each_only_panics
        [where P = "\<lambda>m'. known_peers (cm_peer_list m') = known_peers (cm_peer_list m)"])
      (simp_all add: none_free_transmit)
  ultimately show ?thesis
    using get_path_peer [of "from_ethernet L" pkt] get_route_peer [of "from_ip L" pkt]
    by (auto simp: handle_packet_from_local_def split: director_type.splits option.splits path.splits)
qed

lemma none_free_handle_maintenance_tick: "none_free (handle_maintenance_tick e m)"
proof -
  have fresh: "not_none p" if "is_fresh limit now t = Inl p" for limit now t p
    using that by (auto simp: is_fresh_def split: option.splits)
  have peer: "not_none p" if "prune_peer limit now peer = Inl p" for limit now peer p
    using that fresh by (auto simp: prune_peer_def dest: hm_try_retain_InlD split: sum.splits)
  have "not_none p" if "prune_stale_peers now pl = Inl p" for now pl p
    using that peer by (auto simp: prune_stale_peers_def dest: hm_try_iter_mut_InlD split: sum.splits)
  then show ?thesis
    by (auto simp: handle_maintenance_tick_def Let_def split: sum.splits option.splits)
qed

lemma none_free_run_turn:
  assumes "cm_inv m"
  shows "none_free (run_turn L e ev m)"
proof -
  have "none_free (handle_sequencer_tick e m)"
    unfolding handle_sequencer_tick_def
    by (rule for_each_only_panics [where P = "\<lambda>_. True"]) (auto split: prod.splits)
  moreover have "none_free (handle_udp_packet L e raw m)" for raw
    by (auto simp: handle_udp_packet_def handle_incoming_keepalive_def handle_instant_keepalive_def Let_def
        case_prod_beta intro!: only_panics_and_then split: option.splits messages.splits director_type.splits)
  ultimately show ?thesis
    using assms
    by (auto simp: cm_inv_owned select_branch_def handle_keepalive_def none_free_handle_packet_from_local
        none_free_handle_maintenance_tick split: cm_event.splits option.splits)
qed

section \<open>Properties\<close>

text \<open>The examples run node 1 of \<open>Demo_Node\<close>.\<close>

lemma sane_demo_env: "t \<le> u \<Longrightarrow> u \<le> t' \<Longrightarrow> sane_env t t' (demo_env u)"
  by (simp add: sane_env_def demo_env_def)

lemma serializes_demo: "serializes demo_libs"
proof -
  have "\<exists>b. demo_serialize msg = Some b" for msg by (cases msg) simp_all
  then show ?thesis by (simp add: serializes_def demo_libs_def)
qed

lemma demo_reachable: "reachable cm_init step (0, Running demo_manager)"
  unfolding demo_manager_def by (intro reachable.start cm_init.intros) simp_all

definition demo_arrival :: cm_event where
  "demo_arrival = Raw_Udp (Some (demo_datagram (Packet_Msg \<lparr>seq = 0, peer_id = 2, bytes = [1, 7]\<rparr>)))"

text \<open>C6. The connection manager never panics in surroundings that behave: in every state its loop
  reaches from \<open>ConnectionManager::new\<close>, whatever the settings, in whatever order packets, ticks and
  keepalives come and however \<open>HashMap\<close> orders its entries, it is still running. Assumed are a
  clock that does not run backwards, channels and a log that accept what is sent, receivers that
  are not closed, and that \<open>bincode\<close> serializes every message.\<close>

theorem connection_manager_never_panics:
  assumes "serializes L" and "reachable cm_init (cm_step L) (t, r)"
  shows "\<exists>m. r = Running m \<and> cm_inv m \<and> cm_stamped t m"
proof -
  from sane_turns.reachable_inv [OF assms(2)] assms(1) have "cm_good (t, r)" by blast
  then show ?thesis by (cases r) (simp_all add: cm_good_def)
qed

theorem connection_manager_never_panics_witness:
  "\<exists>m. run_turn demo_libs (demo_env 5) demo_arrival demo_manager = Running m \<and> cm_inv m \<and> cm_stamped 5 m"
proof -
  have "cm_step demo_libs (0, Running demo_manager)
      (5, run_turn demo_libs (demo_env 5) demo_arrival demo_manager)"
    by (rule cm_step.intros) (simp_all add: sane_demo_env demo_arrival_def)
  with demo_reachable have "reachable cm_init (cm_step demo_libs)
      (5, run_turn demo_libs (demo_env 5) demo_arrival demo_manager)"
    by (rule reachable.next_state)
  with serializes_demo show ?thesis by (rule connection_manager_never_panics)
qed

text \<open>C7. In any surroundings, also when the clock runs backwards and channels refuse messages, every
  state the loop reaches satisfies the invariant: each peer's sequencer holds only packets of that
  peer, queued under their own number and none below \<open>next_seq\<close>, and the director sends to known
  peers only.\<close>

theorem connection_manager_invariant:
  assumes "reachable cm_init (cm_turn L) (t, r)"
  shows "director_peers (traffic_director (final r)) \<subseteq> known_peers (cm_peer_list (final r)) \<and>
    (\<forall>pid s k p. get_peer_sequencer pid (cm_peer_list (final r)) = Some s \<longrightarrow>
       bt_lookup (packet_queue s) k = Some p \<longrightarrow> peer_id p = pid \<and> seq p = k \<and> next_seq s \<le> k)"
proof -
  have "cm_inv (final r)" using any_turns.reachable_inv [OF assms] by simp
  then show ?thesis
    by (auto simp: cm_inv_def dest: peer_inv_seqD seq_invD)
qed

theorem connection_manager_invariant_witness:
  "director_peers (traffic_director (final (run_turn demo_libs (demo_env (- 5)) demo_arrival demo_manager)))
     \<subseteq> known_peers (cm_peer_list (final (run_turn demo_libs (demo_env (- 5)) demo_arrival demo_manager)))"
proof -
  have "cm_turn demo_libs (0, Running demo_manager)
      (5, run_turn demo_libs (demo_env (- 5)) demo_arrival demo_manager)"
    by (rule cm_turn.intros)
  with demo_reachable have "reachable cm_init (cm_turn demo_libs)
      (5, run_turn demo_libs (demo_env (- 5)) demo_arrival demo_manager)"
    by (rule reachable.next_state)
  from connection_manager_invariant [OF this] show ?thesis by blast
qed

text \<open>C8. In the loop of the connection manager no \<open>unwrap\<close> of an absent value ever panics, in any
  surroundings: if a reachable connection manager panics, it is over a failed operation (a refused
  message, a clock that ran backwards, a closed channel), never because \<open>Arc::get_mut\<close> finds a second
  handle, a peer it looks up is missing or a queue it pops is empty.\<close>

theorem connection_manager_no_unwrap_none:
  assumes "reachable cm_init (cm_turn L) (t, Running m)"
  shows "run_turn L e ev m \<noteq> Panicked (Unwrap_None w) m'"
proof
  assume "run_turn L e ev m = Panicked (Unwrap_None w) m'"
  moreover have "none_free (run_turn L e ev m)"
    using any_turns.reachable_inv [OF assms] by (simp add: none_free_run_turn)
  ultimately show False by simp
qed

theorem connection_manager_no_unwrap_none_witness:
  "\<nexists>w m'. run_turn demo_libs (demo_env (- 5)) Sequencer_Tick demo_manager = Panicked (Unwrap_None w) m'"
  using connection_manager_no_unwrap_none [OF demo_reachable] by blast

end
