(* ===== verification/Connection_Manager_Behaviour.thy ===== *)
theory Connection_Manager_Behaviour
  imports Connection_Manager_Safety
begin

text \<open>
  What the handlers of the connection manager do: who gets which packet under which number, what is
  delivered to the local device, what keepalives change.
\<close>

section \<open>Observations of the peer list\<close>

lemma get_peer_sequencer_set [simp]:
  "get_peer_sequencer q (set_peer_sequencer pid s pl) =
    (if q = pid \<and> pid \<in> known_peers pl then Some s else get_peer_sequencer q pl)"
  by (auto simp: get_peer_sequencer_def get_set_peer_sequencer known_peers_def split: option.splits)

lemma set_peer_sequencer_other [simp, mpconn_frame]:
  "get_peer_tx_counter q (set_peer_sequencer pid s pl) = get_peer_tx_counter q pl"
  "peer_connection (set_peer_sequencer pid s pl) q a = peer_connection pl q a"
  by (auto simp: get_peer_tx_counter_def peer_connection_def get_set_peer_sequencer unwrap_def
      split: option.splits)

lemma increment_peer_tx_counter_other [simp, mpconn_frame]:
  "get_peer_sequencer q (increment_peer_tx_counter pid pl) = get_peer_sequencer q pl"
  "peer_connection (increment_peer_tx_counter pid pl) q a = peer_connection pl q a"
  "get_peer_connections hc q (increment_peer_tx_counter pid pl) = get_peer_connections hc q pl"
  by (auto simp: get_peer_sequencer_def peer_connection_def get_peer_connections_def
      get_increment_peer_tx_counter increment_tx_counter_def split: option.splits)

lemma get_peer_tx_counter_increment [simp]:
  "get_peer_tx_counter q (increment_peer_tx_counter pid pl) =
    (if q = pid then map_sum id (\<lambda>c. c + 1) (get_peer_tx_counter pid pl) else get_peer_tx_counter q pl)"
  by (auto simp: get_peer_tx_counter_def get_increment_peer_tx_counter increment_tx_counter_def
      unwrap_def split: option.splits)

lemma get_peer_tx_counter_known:
  assumes "pid \<in> known_peers pl"
  obtains c where "get_peer_tx_counter pid pl = Inr c"
  using assms by (metis get_peer_tx_counter_Inl_iff sum.exhaust)

section \<open>From the local device to the remotes\<close>

text \<open>The peers that a packet from the local device goes to, and the datagrams that carry it.\<close>

definition targets :: "libs \<Rightarrow> env \<Rightarrow> byte_vec \<Rightarrow> connection_manager \<Rightarrow> u16 list" where
  "targets L e pkt m =
     (case traffic_director m of
        Layer2 td \<Rightarrow>
          (case get_path (from_ethernet L) pkt td of
             Some (Peer_Path pid) \<Rightarrow> [pid]
           | Some Broadcast \<Rightarrow> get_peer_ids (id_order e) (cm_peer_list m)
           | None \<Rightarrow> [])
      | Layer3 td \<Rightarrow>
          (case get_route (from_ip L) pkt td of Some pid \<Rightarrow> [pid] | None \<Rightarrow> []))"

definition tunnel_datagram :: "libs \<Rightarrow> connection_manager \<Rightarrow> byte_vec \<Rightarrow> u16 \<Rightarrow> byte_vec" where
  "tunnel_datagram L m pkt pid = the (bincode_serialize L
     (Packet_Msg \<lparr>seq = projr (get_peer_tx_counter pid (cm_peer_list m)), peer_id = own_peer_id m, bytes = pkt\<rparr>))"

definition copies :: "libs \<Rightarrow> env \<Rightarrow> byte_vec \<Rightarrow> connection_manager \<Rightarrow> u16 \<Rightarrow> outgoing_udp_packet list" where
  "copies L e pkt m pid = map (\<lambda>a. \<lparr>destination = a, packet_bytes = tunnel_datagram L m pkt pid\<rparr>)
     (get_peer_connections (conn_order e) pid (cm_peer_list m))"

lemma handle_packet_from_local_targets:
  "handle_packet_from_local L e pkt m = for_each (transmit L e pkt) (targets L e pkt m) m"
proof -
  have "chain r (for_each body []) = r" for r and body :: "u16 \<Rightarrow> connection_manager \<Rightarrow> connection_manager outcome"
    by (cases r) simp_all
  then show ?thesis
    by (simp add: handle_packet_from_local_def targets_def
        split: director_type.splits option.splits path.splits)
qed

lemma distinct_targets: "distinct (targets L e pkt m)"
  by (simp add: targets_def split: director_type.splits option.splits path.splits)

lemma targets_known:
  assumes "cm_inv m"
  shows "set (targets L e pkt m) \<subseteq> known_peers (cm_peer_list m)"
proof -
  have "pid \<in> known_peers (cm_peer_list m)" if "pid \<in> director_peers (traffic_director m)" for pid
    using that assms by (auto simp: cm_inv_def)
  note known = this
  show ?thesis
  proof (cases "traffic_director m")
    case (Layer2 td)
    show ?thesis
    proof (cases "get_path (from_ethernet L) pkt td")
      case None
      with Layer2 show ?thesis by (simp add: targets_def)
    next
      case (Some p)
      with Layer2 known get_path_peer [of "from_ethernet L" pkt td] show ?thesis
        by (cases p) (simp_all add: targets_def)
    qed
  next
    case (Layer3 td)
    then show ?thesis
      using known get_route_peer [of "from_ip L" pkt td] by (auto simp: targets_def split: option.splits)
  qed
qed

lemma copies_cong:
  assumes "get_peer_tx_counter pid (cm_peer_list m') = get_peer_tx_counter pid (cm_peer_list m)"
    and "get_peer_connections (conn_order e) pid (cm_peer_list m') =
      get_peer_connections (conn_order e) pid (cm_peer_list m)"
    and "own_peer_id m' = own_peer_id m"
  shows "copies L e pkt m' pid = copies L e pkt m pid"
  using assms by (simp add: copies_def tunnel_datagram_def)

lemma transmit_copies:
  assumes "\<And>n. remotes_ok e n" and "serializes L" and "pid \<in> known_peers (cm_peer_list m)"
  shows "transmit L e pkt pid m = Running (m\<lparr>
    udp_output_broadcast_to_remotes := udp_output_broadcast_to_remotes m @ copies L e pkt m pid,
    cm_peer_list := increment_peer_tx_counter pid (cm_peer_list m)\<rparr>)"
proof -
  from assms(3) obtain c where c: "get_peer_tx_counter pid (cm_peer_list m) = Inr c"
    by (rule get_peer_tx_counter_known)
  obtain b where "bincode_serialize L
      (Packet_Msg \<lparr>seq = c, peer_id = own_peer_id m, bytes = pkt\<rparr>) = Some b"
    using assms(2) by (rule serializesE)
  from transmit_eq [OF assms(1) c this] c this show ?thesis
    by (simp add: copies_def tunnel_datagram_def)
qed

lemma for_each_transmit:
  assumes "\<And>n. remotes_ok e n" and "serializes L"
    and "distinct ids" and "set ids \<subseteq> known_peers (cm_peer_list m)"
  shows "for_each (transmit L e pkt) ids m = Running (m\<lparr>
    udp_output_broadcast_to_remotes :=
      udp_output_broadcast_to_remotes m @ concat (map (copies L e pkt m) ids),
    cm_peer_list := fold increment_peer_tx_counter ids (cm_peer_list m)\<rparr>)"
  using assms(3,4)
proof (induction ids arbitrary: m)
  case (Cons pid ids)
  define m1 where "m1 = m\<lparr>
    udp_output_broadcast_to_remotes := udp_output_broadcast_to_remotes m @ copies L e pkt m pid,
    cm_peer_list := increment_peer_tx_counter pid (cm_peer_list m)\<rparr>"
  have "transmit L e pkt pid m = Running m1"
    using Cons.prems by (simp add: m1_def transmit_copies assms(1,2))
  moreover have "copies L e pkt m1 q = copies L e pkt m q" if "q \<in> set ids" for q
    using that Cons.prems(1) by (intro copies_cong) (auto simp: m1_def)
  ultimately show ?case
    using Cons.prems by (simp add: Cons.IH m1_def cong: map_cong)
qed simp

lemma fold_increment_observations [simp]:
  "known_peers (fold increment_peer_tx_counter ids pl) = known_peers pl"
  "get_peer_sequencer q (fold increment_peer_tx_counter ids pl) = get_peer_sequencer q pl"
  "peer_connection (fold increment_peer_tx_counter ids pl) q a = peer_connection pl q a"
  by (induction ids arbitrary: pl) simp_all

lemma get_peer_tx_counter_fold:
  "distinct ids \<Longrightarrow> get_peer_tx_counter q (fold increment_peer_tx_counter ids pl) =
    (if q \<in> set ids then map_sum id (\<lambda>c. c + 1) (get_peer_tx_counter q pl) else get_peer_tx_counter q pl)"
  by (induction ids arbitrary: pl) auto

section \<open>From the remotes to the local device\<close>

text \<open>What the tick does to the sequencer of the j-th peer it visits.\<close>

definition tick_step :: "env \<Rightarrow> nat \<Rightarrow> sequencer \<Rightarrow> packet list \<times> sequencer" where
  "tick_step e j s = (if deadline s < clk e j 0 - last_update s
     then seq_step (Expire (later (clk e j))) s else ([], s))"

definition tick_peer :: "env \<Rightarrow> connection_manager \<Rightarrow> nat \<times> u16 \<Rightarrow> packet list" where
  "tick_peer e m = (\<lambda>(j, pid). case get_peer_sequencer pid (cm_peer_list m) of
     Some s \<Rightarrow> fst (tick_step e j s) | None \<Rightarrow> [])"

lemma set_peer_sequencer_same:
  "get_peer_sequencer pid pl = Some s \<Longrightarrow> get_peer_sequencer q (set_peer_sequencer pid s pl) = get_peer_sequencer q pl"
  by auto

text \<open>Two peer lists that agree on connections and counters.\<close>

definition same_links :: "peer_list \<Rightarrow> peer_list \<Rightarrow> bool" where
  "same_links pl pl' \<longleftrightarrow> known_peers pl' = known_peers pl \<and>
     (\<forall>q. get_peer_tx_counter q pl' = get_peer_tx_counter q pl) \<and>
     peer_connection pl' = peer_connection pl"

lemma same_links_refl [simp]: "same_links pl pl"
  by (simp add: same_links_def)

lemma same_links_set [simp]: "same_links pl (set_peer_sequencer pid s pl)"
  by (auto simp: same_links_def fun_eq_iff)

lemma same_links_trans: "same_links a b \<Longrightarrow> same_links b c \<Longrightarrow> same_links a c"
  by (simp add: same_links_def)

lemma advance_peer_tick:
  assumes "\<And>n. local_ok e n"
    and "\<And>s. get_peer_sequencer pid (cm_peer_list m) = Some s \<Longrightarrow> last_update s \<le> clk e j 0"
  shows "\<exists>pl. advance_peer e (clk e j) pid m = Running (m\<lparr>
      packets_to_local := packets_to_local m @ map bytes (tick_peer e m (j, pid)), cm_peer_list := pl\<rparr>) \<and>
    same_links (cm_peer_list m) pl \<and>
    (\<forall>q. get_peer_sequencer q pl = (if q = pid
      then map_option (\<lambda>s. snd (tick_step e j s)) (get_peer_sequencer q (cm_peer_list m))
      else get_peer_sequencer q (cm_peer_list m)))"
proof (cases "get_peer_sequencer pid (cm_peer_list m)")
  case None
  then show ?thesis
    by (intro exI [of _ "cm_peer_list m"]) (auto simp: advance_peer_def tick_peer_def)
next
  case (Some s)
  obtain ds s' where st: "seq_step (Expire (later (clk e j))) s = (ds, s')" by fastforce
  have known: "pid \<in> known_peers (cm_peer_list m)"
    using Some get_peer_sequencer_None_iff [of pid "cm_peer_list m"] by auto
  note eq = advance_peer_eq [OF assms(1) Some assms(2) [OF Some] st]
  show ?thesis
  proof (cases "deadline s < clk e j 0 - last_update s")
    case True
    with eq st known Some show ?thesis
      by (intro exI [of _ "set_peer_sequencer pid s' (cm_peer_list m)"])
        (auto simp: tick_peer_def tick_step_def)
  next
    case False
    with eq st known Some show ?thesis
      by (intro exI [of _ "cm_peer_list m"]) (auto simp: tick_peer_def tick_step_def)
  qed
qed

text \<open>\<open>pl'\<close> is \<open>pl\<close> after the tick has visited the peers of \<open>jobs\<close>.\<close>

definition ticked :: "env \<Rightarrow> (nat \<times> u16) list \<Rightarrow> peer_list \<Rightarrow> peer_list \<Rightarrow> bool" where
  "ticked e jobs pl pl' \<longleftrightarrow> same_links pl pl' \<and>
     (\<forall>(j, q) \<in> set jobs. get_peer_sequencer q pl' =
       map_option (\<lambda>s. snd (tick_step e j s)) (get_peer_sequencer q pl)) \<and>
     (\<forall>q. q \<notin> snd ` set jobs \<longrightarrow> get_peer_sequencer q pl' = get_peer_sequencer q pl)"

lemma ticked_Cons:
  assumes "same_links pl pl1" and "ticked e jobs pl1 pl2" and "pid \<notin> snd ` set jobs"
    and "\<And>q. get_peer_sequencer q pl1 = (if q = pid
      then map_option (\<lambda>s. snd (tick_step e j s)) (get_peer_sequencer q pl) else get_peer_sequencer q pl)"
  shows "ticked e ((j, pid) # jobs) pl pl2"
proof -
  have "q \<noteq> pid" if "(i, q) \<in> set jobs" for i q
    using that assms(3) by force
  with assms show ?thesis
    unfolding ticked_def by (auto intro: same_links_trans)
qed

lemma tick_peer_cong:
  "get_peer_sequencer (snd job) (cm_peer_list m') = get_peer_sequencer (snd job) (cm_peer_list m) \<Longrightarrow>
    tick_peer e m' job = tick_peer e m job"
  by (simp add: tick_peer_def case_prod_beta)

lemma advance_peers_tick:
  assumes "\<And>n. local_ok e n" and "distinct (map snd jobs)"
    and "\<And>job s. job \<in> set jobs \<Longrightarrow> get_peer_sequencer (snd job) (cm_peer_list m) = Some s \<Longrightarrow>
      last_update s \<le> clk e (fst job) 0"
  shows "\<exists>pl. for_each (\<lambda>(j, pid). advance_peer e (clk e j) pid) jobs m = Running (m\<lparr>
      packets_to_local := packets_to_local m @ map bytes (concat (map (tick_peer e m) jobs)),
      cm_peer_list := pl\<rparr>) \<and> ticked e jobs (cm_peer_list m) pl"
  using assms(2,3)
proof (induction jobs arbitrary: m)
  case Nil
  show ?case by (rule exI [of _ "cm_peer_list m"]) (simp add: ticked_def)
next
  case (Cons job jobs)
  obtain j pid where job: "job = (j, pid)" by (cases job)
  have now: "last_update s \<le> clk e j 0" if "get_peer_sequencer pid (cm_peer_list m) = Some s" for s
    using Cons.prems(2) [of job s] that job by simp
  obtain pl where adv: "advance_peer e (clk e j) pid m = Running (m\<lparr>
      packets_to_local := packets_to_local m @ map bytes (tick_peer e m (j, pid)), cm_peer_list := pl\<rparr>)"
    and links: "same_links (cm_peer_list m) pl"
    and seqs: "\<And>q. get_peer_sequencer q pl = (if q = pid
      then map_option (\<lambda>s. snd (tick_step e j s)) (get_peer_sequencer q (cm_peer_list m))
      else get_peer_sequencer q (cm_peer_list m))"
    using advance_peer_tick [OF assms(1) now] by blast
  define m1 where
    "m1 = m\<lparr>packets_to_local := packets_to_local m @ map bytes (tick_peer e m (j, pid)), cm_peer_list := pl\<rparr>"
  have fresh: "pid \<notin> snd ` set jobs" using Cons.prems(1) job by simp
  then have other: "get_peer_sequencer (snd jb) (cm_peer_list m1) = get_peer_sequencer (snd jb) (cm_peer_list m)"
    if "jb \<in> set jobs" for jb
    using that by (auto simp: m1_def seqs)
  obtain pl' where rest: "for_each (\<lambda>(j, pid). advance_peer e (clk e j) pid) jobs m1 = Running (m1\<lparr>
      packets_to_local := packets_to_local m1 @ map bytes (concat (map (tick_peer e m1) jobs)),
      cm_peer_list := pl'\<rparr>)" and tk: "ticked e jobs (cm_peer_list m1) pl'"
    using Cons.IH [of m1] Cons.prems other by auto
  have same: "map (tick_peer e m1) jobs = map (tick_peer e m) jobs"
    using other by (auto intro: tick_peer_cong)
  from rest [unfolded same] adv have "for_each (\<lambda>(j, pid). advance_peer e (clk e j) pid) (job # jobs) m = Running (m\<lparr>
      packets_to_local := packets_to_local m @ map bytes (concat (map (tick_peer e m) (job # jobs))),
      cm_peer_list := pl'\<rparr>)"
    by (simp add: job m1_def)
  moreover have "ticked e (job # jobs) (cm_peer_list m) pl'"
    unfolding job using tk by (intro ticked_Cons [OF links _ fresh seqs]) (simp add: m1_def)
  ultimately show ?case by blast
qed

text \<open>The interface log gets one line per packet.\<close>

lemma write_interface_log_eq:
  assumes "sane_env t t' e" and "0 \<le> t"
  shows "write_interface_log e (clk e 0 0) r n m = Running (m\<lparr>interface_logger :=
    map_option (\<lambda>if_log. if_log @ [log_line (clk e 0 0) n r]) (interface_logger m)\<rparr>)"
proof -
  have "0 \<le> clk e 0 0" using sane_envD(1) [OF assms(1), of 0 0] assms(2) by linarith
  then show ?thesis
    by (cases m) (auto simp: write_interface_log_def duration_since_def sane_envD(5) [OF assms(1)]
        split: option.splits)
qed

section \<open>Keepalives\<close>

text \<open>Whether a keepalive announces a route the director does not have yet.\<close>

definition announces_route :: "keepalive \<Rightarrow> connection_manager \<Rightarrow> bool" where
  "announces_route ka m = (case traffic_director m of
     Layer2 td \<Rightarrow> False
   | Layer3 td \<Rightarrow> (case ka_tun_ip ka of
       None \<Rightarrow> False
     | Some tun_ip \<Rightarrow> hm_get (routing_table td) (V4 tun_ip) = None))"

definition own_keepalives :: "libs \<Rightarrow> connection_manager \<Rightarrow> socket_addr list \<Rightarrow> outgoing_udp_packet list" where
  "own_keepalives L m as =
     map (\<lambda>a. \<lparr>destination = a, packet_bytes = the (bincode_serialize L (own_keepalive m))\<rparr>) as"

lemma send_keepalives_own:
  assumes "\<And>n. remotes_ok e n" and "serializes L"
  shows "send_keepalives L e as m = Running (m\<lparr>
    udp_output_broadcast_to_remotes := udp_output_broadcast_to_remotes m @ own_keepalives L m as\<rparr>)"
proof -
  obtain b where b: "bincode_serialize L (own_keepalive m) = Some b"
    using assms(2) by (rule serializesE)
  from send_keepalives_eq [OF assms(1) b, of as] b show ?thesis by (simp add: own_keepalives_def)
qed

lemma own_keepalives_cong:
  "own_peer_id m' = own_peer_id m \<Longrightarrow> own_tun_ip m' = own_tun_ip m \<Longrightarrow>
    own_keepalives L m' as = own_keepalives L m as"
  by (simp add: own_keepalives_def own_keepalive_def)

lemma handle_incoming_keepalive_eq:
  assumes "\<And>n. remotes_ok e n" and "serializes L"
  shows "\<exists>d. handle_incoming_keepalive L e ka a m = Running (m\<lparr>
      cm_peer_list := add_peer (clk e 0) (ka_peer_id ka) a (cm_peer_list m),
      traffic_director := d,
      udp_output_broadcast_to_remotes := udp_output_broadcast_to_remotes m @
        (if announces_route ka m then own_keepalives L m (get_peer_connections (conn_order e) (ka_peer_id ka)
           (add_peer (clk e 0) (ka_peer_id ka) a (cm_peer_list m))) else [])\<rparr>) \<and>
    (\<not> announces_route ka m \<longrightarrow> d = traffic_director m) \<and>
    (\<forall>td ip. traffic_director m = Layer3 td \<longrightarrow> ka_tun_ip ka = Some ip \<longrightarrow>
       d = Layer3 (snd (insert_route (ka_peer_id ka) (V4 ip) td)))"
proof (cases "traffic_director m")
  case (Layer2 td)
  then show ?thesis
    by (intro exI [of _ "Layer2 td"]) (cases m, simp add: handle_incoming_keepalive_def announces_route_def)
next
  case (Layer3 td)
  show ?thesis
  proof (cases "ka_tun_ip ka")
    case None
    with Layer3 show ?thesis
      by (intro exI [of _ "Layer3 td"]) (cases m, simp add: handle_incoming_keepalive_def announces_route_def)
  next
    case (Some ip)
    let ?d = "Layer3 (snd (insert_route (ka_peer_id ka) (V4 ip) td))"
    have "announces_route ka m = fst (insert_route (ka_peer_id ka) (V4 ip) td)"
      by (simp add: Layer3 Some announces_route_def insert_route_def hm_contains_key_iff)
    moreover have "insert_route (ka_peer_id ka) (V4 ip) td = (False, td)"
      if "\<not> fst (insert_route (ka_peer_id ka) (V4 ip) td)"
      using that by (simp add: insert_route_def split: if_splits)
    ultimately show ?thesis
      using Layer3 Some
      by (intro exI [of _ ?d]) (cases m, auto simp: handle_incoming_keepalive_def handle_instant_keepalive_def
          send_keepalives_own [OF assms] case_prod_beta own_keepalives_def own_keepalive_def)
  qed
qed

section \<open>Properties\<close>

text \<open>C9. A packet from the local device: each peer it is routed to gets one copy per connection, all
  with the same number, the peer's counter, under this node's id; then that counter goes up by one.
  Counters of other peers, sequencers, connections, the director and the local side stay as they are.\<close>

theorem local_packet_fan_out:
  assumes "sane_env t t' e" and "serializes L" and "cm_inv m"
  shows "\<exists>m'. handle_packet_from_local L e pkt m = Running m' \<and>
    udp_output_broadcast_to_remotes m' = udp_output_broadcast_to_remotes m @
      concat (map (\<lambda>pid. map (\<lambda>a. \<lparr>destination = a, packet_bytes = tunnel_datagram L m pkt pid\<rparr>)
        (get_peer_connections (conn_order e) pid (cm_peer_list m))) (targets L e pkt m)) \<and>
    (\<forall>pid. get_peer_tx_counter pid (cm_peer_list m') =
       (if pid \<in> set (targets L e pkt m) then map_sum id (\<lambda>c. c + 1) else id)
         (get_peer_tx_counter pid (cm_peer_list m))) \<and>
    (\<forall>pid. get_peer_sequencer pid (cm_peer_list m') = get_peer_sequencer pid (cm_peer_list m)) \<and>
    peer_connection (cm_peer_list m') = peer_connection (cm_peer_list m) \<and>
    traffic_director m' = traffic_director m \<and> packets_to_local m' = packets_to_local m"
  unfolding handle_packet_from_local_targets
    for_each_transmit [OF sane_envD(4) [OF assms(1)] assms(2) distinct_targets targets_known [OF assms(3)]]
  by (simp add: copies_def [abs_def] get_peer_tx_counter_fold distinct_targets fun_eq_iff)

text \<open>Node 1 after node 2 has announced its tunnel address.\<close>

definition demo_routed :: connection_manager where
  "demo_routed = final (run_turn demo_libs (demo_env 1)
     (Raw_Udp (Some (demo_datagram (Keepalive_Msg \<lparr>ka_peer_id = 2, ka_tun_ip = Some 0x0A000002\<rparr>)))) demo_manager)"

lemma cm_inv_demo_routed: "cm_inv demo_routed"
  unfolding demo_routed_def demo_manager_def by (intro cm_inv_run_turn cm_inv_new)

theorem local_packet_fan_out_witness:
  "targets demo_libs (demo_env 2) [2, 9] demo_routed = [2] \<and>
   get_peer_connections (conn_order (demo_env 2)) 2 (cm_peer_list demo_routed) = [demo_socket 1, demo_socket 2] \<and>
   get_peer_tx_counter 2 (cm_peer_list (final (handle_packet_from_local demo_libs (demo_env 2) [2, 9] demo_routed))) = Inr 1"
proof -
  have tg: "targets demo_libs (demo_env 2) [2, 9] demo_routed = [2]" by code_simp
  have c: "get_peer_tx_counter 2 (cm_peer_list demo_routed) = Inr 0" by code_simp
  have "get_peer_connections (conn_order (demo_env 2)) 2 (cm_peer_list demo_routed) = [demo_socket 1, demo_socket 2]"
    by code_simp
  with tg c show ?thesis
    using local_packet_fan_out [OF sane_demo_env [of 2 2 2] serializes_demo cm_inv_demo_routed, of "[2, 9]"]
    by auto
qed

text \<open>C10. A packet from a known peer: its sequencer, and no other, makes the arrival step of
  \<open>sequencer.rs\<close>; what the step delivers goes to the local device, byte for byte and in that order,
  and on layer 2 teaches the director. Nothing is sent to the remotes.\<close>

theorem incoming_packet_behaviour:
  assumes "sane_env t t' e" and "get_peer_sequencer (peer_id pkt) (cm_peer_list m) = Some s"
  shows "\<exists>m'. handle_incoming_packet L e pkt m = Running m' \<and>
    packets_to_local m' = packets_to_local m @ map bytes (fst (seq_step (Arrive pkt (clk e 1)) s)) \<and>
    (\<forall>q. get_peer_sequencer q (cm_peer_list m') = (if q = peer_id pkt
       then Some (snd (seq_step (Arrive pkt (clk e 1)) s)) else get_peer_sequencer q (cm_peer_list m))) \<and>
    same_links (cm_peer_list m) (cm_peer_list m') \<and>
    udp_output_broadcast_to_remotes m' = udp_output_broadcast_to_remotes m \<and>
    traffic_director m' = learn_all L (fst (seq_step (Arrive pkt (clk e 1)) s)) (traffic_director m)"
proof -
  have "peer_id pkt \<in> known_peers (cm_peer_list m)"
    using assms(2) get_peer_sequencer_None_iff [of "peer_id pkt" "cm_peer_list m"] by auto
  then show ?thesis
    using handle_incoming_packet_eq [OF sane_envD(3) [OF assms(1)] assms(2) surjective_pairing]
    by (simp del: seq_step.simps)
qed

definition demo_packet :: "u64 \<Rightarrow> packet" where
  "demo_packet n = \<lparr>seq = n, peer_id = 2, bytes = [1, ucast n]\<rparr>"

theorem incoming_packet_behaviour_witness:
  "packets_to_local (final (handle_incoming_packet demo_libs (demo_env 2) (demo_packet 0) demo_manager)) = [[1, 0]]"
proof -
  let ?s = "sequencer_new (from_millis 3) 0"
  have "get_peer_sequencer (peer_id (demo_packet 0)) (cm_peer_list demo_manager) = Some ?s" by code_simp
  moreover have "packets_to_local demo_manager = []" by code_simp
  moreover have "map bytes (fst (seq_step (Arrive (demo_packet 0) (clk (demo_env 2) 1)) ?s)) = [[1, 0]]"
    by code_simp
  ultimately show ?thesis
    using incoming_packet_behaviour [OF sane_demo_env [of 2 2 2], of "demo_packet 0" demo_manager ?s demo_libs]
    by auto
qed

text \<open>C11. The sequencer tick: every known peer whose last delivery is longer ago than its deadline makes
  the expiry step, in the order of the iteration; what the steps deliver goes to the local device,
  and counters and connections stay. The director stays as well: packets delivered by
  the tick teach no MAC address, although every other delivery does.\<close>

theorem sequencer_tick_behaviour:
  assumes "sane_env t t' e" and "cm_stamped t m"
  shows "\<exists>m'. handle_sequencer_tick e m = Running m' \<and>
    packets_to_local m' = packets_to_local m @ map bytes (concat (map (tick_peer e m)
      (List.enumerate 0 (get_peer_ids (id_order e) (cm_peer_list m))))) \<and>
    ticked e (List.enumerate 0 (get_peer_ids (id_order e) (cm_peer_list m))) (cm_peer_list m) (cm_peer_list m') \<and>
    traffic_director m' = traffic_director m \<and>
    udp_output_broadcast_to_remotes m' = udp_output_broadcast_to_remotes m"
proof -
  let ?jobs = "List.enumerate 0 (get_peer_ids (id_order e) (cm_peer_list m))"
  have "last_update s \<le> clk e (fst job) 0"
    if "get_peer_sequencer (snd job) (cm_peer_list m) = Some s" for job s
    using peer_stamped_seqD [OF assms(2) [unfolded cm_stamped_def] that] sane_envD(1) [OF assms(1)]
    by (meson order_trans)
  from advance_peers_tick [OF sane_envD(3) [OF assms(1)], of ?jobs m] this show ?thesis
    by (auto simp: handle_sequencer_tick_def)
qed

definition demo_waiting :: connection_manager where
  "demo_waiting = final (handle_incoming_packet demo_libs (demo_env 0) (demo_packet 4) demo_manager)"

theorem sequencer_tick_behaviour_witness:
  "packets_to_local demo_waiting = [] \<and>
   packets_to_local (final (handle_sequencer_tick (demo_env 4000000) demo_waiting)) = [[1, 4]]"
proof -
  have inv: "cm_stamped 0 demo_waiting"
    by code_simp
  have "packets_to_local demo_waiting = []" by code_simp
  moreover have "map bytes (concat (map (tick_peer (demo_env 4000000) demo_waiting)
      (List.enumerate 0 (get_peer_ids (id_order (demo_env 4000000)) (cm_peer_list demo_waiting))))) = [[1, 4]]"
    by code_simp
  ultimately show ?thesis
    using sequencer_tick_behaviour [OF sane_demo_env [of 0 4000000 4000000] inv] by auto
qed

text \<open>C15. What must not disturb the node does not: a datagram that does not decode leaves the whole
  state as it is, and after a packet from an unknown peer the manager runs on in the state it had,
  with one line more in the interface log if there is one.\<close>

theorem foreign_datagrams_ignored:
  assumes "cm_inv m" and "sane_env t t' e" and "0 \<le> t"
  shows "(bincode_deserialize L (raw_bytes raw) = None \<longrightarrow> run_turn L e (Raw_Udp (Some raw)) m = Running m) \<and>
   (bincode_deserialize L (raw_bytes raw) = Some (Packet_Msg pkt) \<and>
      peer_id pkt \<notin> known_peers (cm_peer_list m) \<longrightarrow>
    run_turn L e (Raw_Udp (Some raw)) m = Running (m\<lparr>interface_logger :=
      map_option (\<lambda>if_log. if_log @ [log_line (clk e 0 0) (seq pkt) (receiver_interface raw)]) (interface_logger m)\<rparr>))"
proof -
  have "handle_incoming_packet L e pkt (m\<lparr>interface_logger := lg\<rparr>) = Running (m\<lparr>interface_logger := lg\<rparr>)"
    if "peer_id pkt \<notin> known_peers (cm_peer_list m)" for lg
    using that by (simp add: handle_incoming_packet_def get_peer_sequencer_None_iff [symmetric])
  then show ?thesis
    using assms(1) write_interface_log_eq [OF assms(2,3), of "receiver_interface raw" "seq pkt" m]
    by (auto simp: cm_inv_owned select_branch_def handle_udp_packet_def)
qed

definition demo_foreign_packet :: packet where
  "demo_foreign_packet = \<lparr>seq = 7, peer_id = 9, bytes = [1]\<rparr>"

theorem foreign_datagrams_ignored_witness:
  "run_turn demo_libs (demo_env 3) (Raw_Udp (Some (demo_datagram (Packet_Msg demo_foreign_packet)))) demo_manager =
   Running (demo_manager\<lparr>interface_logger := Some [''3,7,eth0'' @ [CHR 0x0A]]\<rparr>)"
proof -
  have "peer_id demo_foreign_packet \<notin> known_peers (cm_peer_list demo_manager)"
    unfolding get_peer_sequencer_None_iff [symmetric] by code_simp
  moreover have "map_option (\<lambda>if_log. if_log @ [log_line (clk (demo_env 3) 0 0) (seq demo_foreign_packet)
      (receiver_interface (demo_datagram (Packet_Msg demo_foreign_packet)))]) (interface_logger demo_manager) =
      Some [''3,7,eth0'' @ [CHR 0x0A]]"
    by code_simp
  moreover have "cm_inv demo_manager" by (simp add: demo_manager_def cm_inv_new)
  ultimately show ?thesis
    using foreign_datagrams_ignored [OF _ sane_demo_env [of 3 3 3], of demo_manager demo_libs
        "demo_datagram (Packet_Msg demo_foreign_packet)" demo_foreign_packet] by simp
qed

text \<open>C12. An incoming keepalive: the sender becomes (or stays) a known peer with this connection. A
  layer 3 node that learns a route from it answers at once, with one keepalive to each connection
  of that peer and to nobody else; otherwise nothing is sent and the director stays as it is.\<close>

theorem incoming_keepalive_behaviour:
  assumes "sane_env t t' e" and "serializes L"
  shows "\<exists>m'. handle_incoming_keepalive L e ka a m = Running m' \<and>
    cm_peer_list m' = add_peer (clk e 0) (ka_peer_id ka) a (cm_peer_list m) \<and>
    peer_connection (cm_peer_list m') (ka_peer_id ka) a \<noteq> None \<and>
    packets_to_local m' = packets_to_local m \<and>
    (if announces_route ka m
     then (\<exists>td ip. traffic_director m' = Layer3 td \<and> ka_tun_ip ka = Some ip \<and>
             hm_get (routing_table td) (V4 ip) = Some (ka_peer_id ka)) \<and>
       udp_output_broadcast_to_remotes m' = udp_output_broadcast_to_remotes m @
         own_keepalives L m (get_peer_connections (conn_order e) (ka_peer_id ka) (cm_peer_list m'))
     else traffic_director m' = traffic_director m \<and>
       udp_output_broadcast_to_remotes m' = udp_output_broadcast_to_remotes m)"
proof -
  obtain d where eq: "handle_incoming_keepalive L e ka a m = Running (m\<lparr>
      cm_peer_list := add_peer (clk e 0) (ka_peer_id ka) a (cm_peer_list m),
      traffic_director := d,
      udp_output_broadcast_to_remotes := udp_output_broadcast_to_remotes m @
        (if announces_route ka m then own_keepalives L m (get_peer_connections (conn_order e) (ka_peer_id ka)
           (add_peer (clk e 0) (ka_peer_id ka) a (cm_peer_list m))) else [])\<rparr>)"
    and old: "\<not> announces_route ka m \<Longrightarrow> d = traffic_director m"
    and new: "\<And>td ip. traffic_director m = Layer3 td \<Longrightarrow> ka_tun_ip ka = Some ip \<Longrightarrow>
       d = Layer3 (snd (insert_route (ka_peer_id ka) (V4 ip) td))"
    using handle_incoming_keepalive_eq [OF sane_envD(4) [OF assms(1)] assms(2), of ka a m] by blast
  have "\<exists>td ip. d = Layer3 td \<and> ka_tun_ip ka = Some ip \<and> hm_get (routing_table td) (V4 ip) = Some (ka_peer_id ka)"
    if "announces_route ka m"
    using that new by (auto simp: announces_route_def insert_route_def hm_contains_key_iff hm.get_ins
        split: director_type.splits option.splits)
  moreover have "peer_connection (add_peer (clk e 0) (ka_peer_id ka) a (cm_peer_list m)) (ka_peer_id ka) a \<noteq> None"
    by (auto simp: peer_connection_def get_add_peer hm.get_ins split: option.splits)
  ultimately show ?thesis using eq old by auto
qed

definition demo_announcement :: keepalive where
  "demo_announcement = \<lparr>ka_peer_id = 2, ka_tun_ip = Some 0x0A000002\<rparr>"

theorem incoming_keepalive_behaviour_witness:
  "announces_route demo_announcement demo_manager \<and>
   map destination (udp_output_broadcast_to_remotes
     (final (handle_incoming_keepalive demo_libs (demo_env 1) demo_announcement (demo_socket 3) demo_manager))) =
   get_peer_connections (conn_order (demo_env 1)) 2
     (cm_peer_list (final (handle_incoming_keepalive demo_libs (demo_env 1) demo_announcement (demo_socket 3) demo_manager)))"
proof -
  have "announces_route demo_announcement demo_manager" by code_simp
  moreover have "udp_output_broadcast_to_remotes demo_manager = []" by code_simp
  moreover have "ka_peer_id demo_announcement = 2" by code_simp
  ultimately show ?thesis
    using incoming_keepalive_behaviour [OF sane_demo_env [of 1 1 1] serializes_demo, of demo_announcement "demo_socket 3" demo_manager]
    by (auto simp: own_keepalives_def comp_def)
qed

text \<open>C13. Keepalives do not multiply: once a node has handled a keepalive, a later one that announces the
  same tunnel address is answered with silence, wherever it comes from and whichever peer claims
  the address. So two nodes that answer each other's announcements stop after one round.\<close>

theorem keepalives_do_not_multiply:
  assumes "sane_env t t' e" and "sane_env u u' e'" and "serializes L"
    and "handle_incoming_keepalive L e ka a m = Running m1" and "ka_tun_ip ka' = ka_tun_ip ka"
  shows "\<exists>m2. handle_incoming_keepalive L e' ka' b m1 = Running m2 \<and>
    udp_output_broadcast_to_remotes m2 = udp_output_broadcast_to_remotes m1 \<and>
    traffic_director m2 = traffic_director m1"
proof -
  obtain d where m1: "traffic_director m1 = d"
    and old: "\<not> announces_route ka m \<Longrightarrow> d = traffic_director m"
    and new: "\<And>td ip. traffic_director m = Layer3 td \<Longrightarrow> ka_tun_ip ka = Some ip \<Longrightarrow>
       d = Layer3 (snd (insert_route (ka_peer_id ka) (V4 ip) td))"
    using handle_incoming_keepalive_eq [OF sane_envD(4) [OF assms(1)] assms(3), of ka a m] assms(4) by auto
  have "\<not> announces_route ka' m1"
  proof (cases "announces_route ka m")
    case True
    with new show ?thesis
      by (auto simp: announces_route_def m1 assms(5) insert_route_def hm_contains_key_iff hm.get_ins
          split: director_type.splits option.splits)
  next
    case False
    with old [OF False] show ?thesis
      by (simp add: announces_route_def m1 assms(5) split: director_type.splits option.splits)
  qed
  with handle_incoming_keepalive_eq [OF sane_envD(4) [OF assms(2)] assms(3), of ka' b m1] show ?thesis
    by auto
qed

theorem keepalives_do_not_multiply_witness:
  "\<exists>m1 m2. handle_incoming_keepalive demo_libs (demo_env 1) demo_announcement (demo_socket 3) demo_manager = Running m1 \<and>
     handle_incoming_keepalive demo_libs (demo_env 2) (demo_announcement\<lparr>ka_peer_id := 9\<rparr>) (demo_socket 4) m1 = Running m2 \<and>
     udp_output_broadcast_to_remotes m2 = udp_output_broadcast_to_remotes m1"
proof -
  obtain m1 where m1:
    "handle_incoming_keepalive demo_libs (demo_env 1) demo_announcement (demo_socket 3) demo_manager = Running m1"
    using handle_incoming_keepalive_eq
      [OF sane_envD(4) [OF sane_demo_env [of 1 1 1]] serializes_demo, of demo_announcement "demo_socket 3" demo_manager] by auto
  show ?thesis
    using keepalives_do_not_multiply [OF sane_demo_env [of 1 1 1] sane_demo_env [of 2 2 2] serializes_demo m1,
        of "demo_announcement\<lparr>ka_peer_id := 9\<rparr>" "demo_socket 4"] m1 by auto
qed

text \<open>C14. The keepalive tick sends this node's keepalive to every connection of every peer: an address
  gets as many copies as there are peers that have it as a connection, and nothing else is sent or
  changed.\<close>

theorem keepalive_tick_behaviour:
  assumes "sane_env t t' e" and "serializes L"
  shows "\<exists>as. handle_keepalive L e m = Running (m\<lparr>udp_output_broadcast_to_remotes :=
      udp_output_broadcast_to_remotes m @ own_keepalives L m as\<rparr>) \<and>
    (\<forall>a. count_list as a = card {pid. peer_connection (cm_peer_list m) pid a \<noteq> None})"
  unfolding handle_keepalive_def send_keepalives_own [OF sane_envD(4) [OF assms(1)] assms(2)]
  using get_all_connections_count by blast

theorem keepalive_tick_behaviour_witness:
  "map destination (udp_output_broadcast_to_remotes (final (handle_keepalive demo_libs (demo_env 1) demo_manager))) =
     [demo_socket 1, demo_socket 2] \<and>
   card {pid. peer_connection (cm_peer_list demo_manager) pid (demo_socket 1) \<noteq> None} = 1"
proof -
  obtain as where eq: "handle_keepalive demo_libs (demo_env 1) demo_manager =
      Running (demo_manager\<lparr>udp_output_broadcast_to_remotes :=
        udp_output_broadcast_to_remotes demo_manager @ own_keepalives demo_libs demo_manager as\<rparr>)"
    and n: "\<And>a. count_list as a = card {pid. peer_connection (cm_peer_list demo_manager) pid a \<noteq> None}"
    using keepalive_tick_behaviour [OF sane_demo_env [of 1 1 1] serializes_demo, of demo_manager] by blast
  have out: "map destination (udp_output_broadcast_to_remotes (final (handle_keepalive demo_libs (demo_env 1) demo_manager))) =
      [demo_socket 1, demo_socket 2]" by code_simp
  have "udp_output_broadcast_to_remotes demo_manager = []" by code_simp
  with out eq have "as = [demo_socket 1, demo_socket 2]"
    by (simp add: own_keepalives_def comp_def)
  moreover have "demo_socket 1 \<noteq> demo_socket 2" by (simp add: demo_socket_def)
  ultimately show ?thesis using n [of "demo_socket 1"] out by simp
qed

text \<open>The setting \<open>keep_alive_interval\<close> has no effect: the manager made from the settings does not
  depend on it, and its keepalive timer fires every 10 seconds.\<close>

lemma keep_alive_interval_has_no_effect:
  "connection_manager_new ts (settings\<lparr>keep_alive_interval := n\<rparr>) logger =
     connection_manager_new ts settings logger \<and>
   keepalive_interval (connection_manager_new ts settings logger) = from_secs 10"
  by (simp add: connection_manager_new_def)

end
