(* ===== verification/Tunnel.thy ===== *)
theory Tunnel
  imports Connection_Manager_Behaviour "HOL-Library.Sublist"
begin

text \<open>
  Two nodes and the network between them. The datagrams a run of one connection manager emits to the
  addresses of a peer number the packets it took from its local device; what a run of another one
  delivers is a life of the sequencer it keeps for that peer; together they say what the tunnel does
  end to end. Peers may be configured or become known by a keepalive in the middle of a run.
\<close>

section \<open>One turn, seen from a peer\<close>

text \<open>The peers that get the packet a turn takes from the local device.\<close>

definition turn_targets :: "libs \<Rightarrow> env \<Rightarrow> cm_event \<Rightarrow> connection_manager \<Rightarrow> u16 list" where
  "turn_targets L e ev m = (case ev of From_Local (Some pkt) \<Rightarrow> targets L e pkt m | _ \<Rightarrow> [])"

text \<open>What a turn is to the sequencer of peer \<open>a\<close>, and the packets a turn hands to the local device.\<close>

definition tick_jobs :: "env \<Rightarrow> connection_manager \<Rightarrow> (nat \<times> u16) list" where
  "tick_jobs e m = List.enumerate 0 (get_peer_ids (id_order e) (cm_peer_list m))"

definition tick_events :: "env \<Rightarrow> u16 \<Rightarrow> connection_manager \<Rightarrow> seq_event list" where
  "tick_events e a m = concat (map (\<lambda>(j, q). if q = a
     then (case get_peer_sequencer a (cm_peer_list m) of
             None \<Rightarrow> []
           | Some s \<Rightarrow> if deadline s < clk e j 0 - last_update s then [Expire (later (clk e j))] else [])
     else []) (tick_jobs e m))"

definition arrivals_in ::
    "libs \<Rightarrow> env \<Rightarrow> u16 \<Rightarrow> incoming_unparsed_packet \<Rightarrow> connection_manager \<Rightarrow> (packet \<times> (nat \<Rightarrow> system_time)) list"
where
  "arrivals_in L e a raw m = (case bincode_deserialize L (raw_bytes raw) of
     Some (Packet_Msg p) \<Rightarrow>
       if peer_id p = a \<and> \<not> Option.is_none (get_peer_sequencer a (cm_peer_list m)) then [(p, clk e 1)] else []
   | _ \<Rightarrow> [])"

definition turn_arrivals ::
    "libs \<Rightarrow> u16 \<Rightarrow> env \<Rightarrow> cm_event \<Rightarrow> connection_manager \<Rightarrow> (packet \<times> (nat \<Rightarrow> system_time)) list" where
  "turn_arrivals L a e ev m = (case ev of Raw_Udp (Some raw) \<Rightarrow> arrivals_in L e a raw m | _ \<Rightarrow> [])"

abbreviation arrive :: "packet \<times> (nat \<Rightarrow> system_time) \<Rightarrow> seq_event" where
  "arrive \<equiv> \<lambda>(p, ts). Arrive p ts"

definition peer_events :: "libs \<Rightarrow> u16 \<Rightarrow> env \<Rightarrow> cm_event \<Rightarrow> connection_manager \<Rightarrow> seq_event list" where
  "peer_events L a e ev m = (case ev of
     Raw_Udp (Some raw) \<Rightarrow> map arrive (arrivals_in L e a raw m)
   | Sequencer_Tick \<Rightarrow> tick_events e a m
   | _ \<Rightarrow> [])"

definition turn_out :: "libs \<Rightarrow> env \<Rightarrow> cm_event \<Rightarrow> connection_manager \<Rightarrow> packet list" where
  "turn_out L e ev m = (case ev of
     Raw_Udp (Some raw) \<Rightarrow> (case bincode_deserialize L (raw_bytes raw) of
       Some (Packet_Msg p) \<Rightarrow> (case get_peer_sequencer (peer_id p) (cm_peer_list m) of
         Some s \<Rightarrow> fst (seq_step (Arrive p (clk e 1)) s)
       | None \<Rightarrow> [])
     | _ \<Rightarrow> [])
   | Sequencer_Tick \<Rightarrow> concat (map (tick_peer e m) (tick_jobs e m))
   | _ \<Rightarrow> [])"

text \<open>What a turn emits: the copies of a packet from the local device, otherwise keepalives only.\<close>

definition keepalive_bytes :: "libs \<Rightarrow> byte_vec \<Rightarrow> bool" where
  "keepalive_bytes L b \<longleftrightarrow> (\<exists>ka. bincode_serialize L (Keepalive_Msg ka) = Some b)"

definition emits :: "libs \<Rightarrow> env \<Rightarrow> cm_event \<Rightarrow> connection_manager \<Rightarrow> outgoing_udp_packet list \<Rightarrow> bool" where
  "emits L e ev m out \<longleftrightarrow> (case ev of
     From_Local (Some pkt) \<Rightarrow> out = concat (map (copies L e pkt m) (targets L e pkt m))
   | _ \<Rightarrow> \<forall>d \<in> set out. keepalive_bytes L (packet_bytes d))"

text \<open>A peer that is not known yet, or from or to which nothing has gone so far.\<close>

definition fresh_to :: "u16 \<Rightarrow> peer_list \<Rightarrow> bool" where
  "fresh_to q pl \<longleftrightarrow> get_peer_tx_counter q pl = Inr 0 \<and>
     (\<exists>now. get_peer_sequencer q pl = Some (sequencer_new (from_millis 3) now))"

definition new_to :: "u16 \<Rightarrow> peer_list \<Rightarrow> bool" where
  "new_to q pl \<longleftrightarrow> q \<notin> known_peers pl \<or> fresh_to q pl"

text \<open>Peers and connections come from keepalives alone.\<close>

definition announces :: "libs \<Rightarrow> cm_event \<Rightarrow> u16 \<Rightarrow> socket_addr \<Rightarrow> bool" where
  "announces L ev q a \<longleftrightarrow> (case ev of
     Raw_Udp (Some raw) \<Rightarrow> received_from raw = a \<and> (case bincode_deserialize L (raw_bytes raw) of
       Some (Keepalive_Msg ka) \<Rightarrow> ka_peer_id ka = q
     | _ \<Rightarrow> False)
   | _ \<Rightarrow> False)"

definition links_grow :: "libs \<Rightarrow> cm_event \<Rightarrow> peer_list \<Rightarrow> peer_list \<Rightarrow> bool" where
  "links_grow L ev pl pl' \<longleftrightarrow>
     (\<forall>q. q \<notin> known_peers pl \<longrightarrow> new_to q pl') \<and>
     (\<forall>q a. peer_connection pl' q a \<noteq> None \<longrightarrow> peer_connection pl q a \<noteq> None \<or> announces L ev q a)"

lemma same_links_grow: "same_links pl pl' \<Longrightarrow> links_grow L ev pl pl'"
  by (simp add: same_links_def links_grow_def new_to_def)

text \<open>Everything the following needs to know of a turn that ends in \<open>m'\<close>.\<close>

definition turn_summary :: "libs \<Rightarrow> env \<Rightarrow> cm_event \<Rightarrow> connection_manager \<Rightarrow> connection_manager \<Rightarrow> bool" where
  "turn_summary L e ev m m' \<longleftrightarrow>
     own_peer_id m' = own_peer_id m \<and>
     (\<forall>q \<in> known_peers (cm_peer_list m). get_peer_tx_counter q (cm_peer_list m') =
        (if q \<in> set (turn_targets L e ev m) then map_sum id (\<lambda>c. c + 1) else id)
          (get_peer_tx_counter q (cm_peer_list m))) \<and>
     (\<forall>q s. get_peer_sequencer q (cm_peer_list m) = Some s \<longrightarrow>
        get_peer_sequencer q (cm_peer_list m') = Some (snd (seq_run (peer_events L q e ev m) s))) \<and>
     packets_to_local m' = packets_to_local m @ map bytes (turn_out L e ev m) \<and>
     links_grow L ev (cm_peer_list m) (cm_peer_list m') \<and>
     (\<exists>out. udp_output_broadcast_to_remotes m' = udp_output_broadcast_to_remotes m @ out \<and> emits L e ev m out)"

lemmas peer_view_defs = turn_summary_def turn_targets_def peer_events_def turn_out_def emits_def

lemma own_keepalives_bytes:
  "serializes L \<Longrightarrow> d \<in> set (own_keepalives L m as) \<Longrightarrow> keepalive_bytes L (packet_bytes d)"
  by (erule serializesE [where msg = "own_keepalive m"])
    (auto simp: own_keepalives_def keepalive_bytes_def own_keepalive_def)

lemma summary_local:
  assumes "sane_env t t' e" and "serializes L" and "cm_inv m"
  shows "\<exists>m'. select_branch L e (From_Local (Some pkt)) m = Running m' \<and>
    turn_summary L e (From_Local (Some pkt)) m m'"
proof -
  have "for_each (transmit L e pkt) (targets L e pkt m) m = Running (m\<lparr>
    udp_output_broadcast_to_remotes :=
      udp_output_broadcast_to_remotes m @ concat (map (copies L e pkt m) (targets L e pkt m)),
    cm_peer_list := fold increment_peer_tx_counter (targets L e pkt m) (cm_peer_list m)\<rparr>)"
    using sane_envD(4) [OF assms(1)] assms(2) distinct_targets targets_known [OF assms(3)]
    by (rule for_each_transmit)
  moreover have "known_peers (fold increment_peer_tx_counter ids pl) = known_peers pl" for ids pl
    by (induction ids arbitrary: pl) simp_all
  ultimately show ?thesis
    by (simp add: select_branch_def handle_packet_from_local_targets peer_view_defs get_peer_tx_counter_fold
        distinct_targets links_grow_def new_to_def)
qed

lemma concat_select:
  "distinct (map snd jobs) \<Longrightarrow> (j, q) \<in> set jobs \<Longrightarrow>
    concat (map (\<lambda>(i, p). if p = q then f i else []) jobs) = f j"
proof (induction jobs)
  case (Cons job jobs)
  have none: "concat (map (\<lambda>(i, p). if p = q then f i else []) jobs) = []" if "q \<notin> snd ` set jobs"
    using that by (induction jobs) auto
  show ?case
  proof (cases "snd job = q")
    case True
    with Cons.prems have "q \<notin> snd ` set jobs" and "job = (j, q)" by (auto simp: image_iff)
    with none show ?thesis by simp
  next
    case False
    with Cons show ?thesis by (auto simp: case_prod_beta)
  qed
qed simp

lemma summary_tick:
  assumes "sane_env t t' e" and "cm_stamped t m"
  shows "\<exists>m'. select_branch L e Sequencer_Tick m = Running m' \<and> turn_summary L e Sequencer_Tick m m'"
proof -
  have "last_update s \<le> clk e (fst job) 0"
    if "get_peer_sequencer (snd job) (cm_peer_list m) = Some s" for job s
    using peer_stamped_seqD [OF assms(2) [unfolded cm_stamped_def] that] sane_envD(1) [OF assms(1)]
    by (meson order_trans)
  moreover have d: "distinct (map snd (tick_jobs e m))" by (simp add: tick_jobs_def)
  ultimately obtain pl where run: "for_each (\<lambda>(j, pid). advance_peer e (clk e j) pid) (tick_jobs e m) m = Running (m\<lparr>
      packets_to_local := packets_to_local m @ map bytes (concat (map (tick_peer e m) (tick_jobs e m))),
      cm_peer_list := pl\<rparr>)" and tk: "ticked e (tick_jobs e m) (cm_peer_list m) pl"
    using advance_peers_tick [OF sane_envD(3) [OF assms(1)], of "tick_jobs e m" m] by blast
  have "get_peer_sequencer q pl = Some (snd (seq_run (tick_events e q m) s))"
    if s: "get_peer_sequencer q (cm_peer_list m) = Some s" for q s
  proof -
    have "q \<in> snd ` set (tick_jobs e m)"
      using s get_peer_sequencer_None_iff [of q "cm_peer_list m"]
      by (simp add: tick_jobs_def flip: set_map)
    then obtain j where j: "(j, q) \<in> set (tick_jobs e m)" by auto
    then have "tick_events e q m =
        (if deadline s < clk e j 0 - last_update s then [Expire (later (clk e j))] else [])"
      unfolding tick_events_def by (subst concat_select [OF d]) (simp_all add: s)
    then have "snd (seq_run (tick_events e q m) s) = snd (tick_step e j s)"
      by (simp add: tick_step_def Let_def case_prod_beta del: seq_step.simps)
    moreover have "get_peer_sequencer q pl = Some (snd (tick_step e j s))"
      using tk j s by (auto simp: ticked_def)
    ultimately show ?thesis by simp
  qed
  with run tk show ?thesis
    by (simp add: select_branch_def handle_sequencer_tick_def peer_view_defs ticked_def tick_jobs_def same_links_grow)
      (simp add: same_links_def)
qed

lemma summary_packet:
  assumes "sane_env t t' e" and "0 \<le> t" and "bincode_deserialize L (raw_bytes raw) = Some (Packet_Msg p)"
  shows "\<exists>m'. select_branch L e (Raw_Udp (Some raw)) m = Running m' \<and> turn_summary L e (Raw_Udp (Some raw)) m m'"
proof -
  obtain lg where turn: "select_branch L e (Raw_Udp (Some raw)) m = handle_incoming_packet L e p (m\<lparr>interface_logger := lg\<rparr>)"
    using write_interface_log_eq [OF assms(1,2), of "receiver_interface raw" "seq p" m]
    by (simp add: select_branch_def handle_udp_packet_def assms(3))
  let ?m = "m\<lparr>interface_logger := lg\<rparr>"
  show ?thesis
  proof (cases "get_peer_sequencer (peer_id p) (cm_peer_list m)")
    case None
    then have "handle_incoming_packet L e p ?m = Running ?m"
      by (simp add: handle_incoming_packet_def)
    moreover have "arrivals_in L e q raw m = []" for q using None by (auto simp: arrivals_in_def assms(3))
    ultimately show ?thesis
      using None by (simp add: turn peer_view_defs assms(3) same_links_grow)
  next
    case (Some s)
    obtain ds s' where st: "seq_step (Arrive p (clk e 1)) s = (ds, s')" by fastforce
    have "peer_id p \<in> known_peers (cm_peer_list m)"
      using Some get_peer_sequencer_None_iff [of "peer_id p" "cm_peer_list m"] by auto
    then show ?thesis
      using handle_incoming_packet_eq [OF sane_envD(3) [OF assms(1)] _ st, of ?m L] Some st
      by (auto simp: turn peer_view_defs arrivals_in_def assms(3) Let_def same_links_grow simp del: seq_step.simps)
  qed
qed

lemma add_peer_keeps:
  "q \<in> known_peers pl \<Longrightarrow> get_peer_tx_counter q (add_peer ts pid a pl) = get_peer_tx_counter q pl"
  "get_peer_sequencer q pl = Some s \<Longrightarrow> get_peer_sequencer q (add_peer ts pid a pl) = Some s"
  by (auto simp: get_peer_tx_counter_def get_peer_sequencer_def get_add_peer known_peers_def
      split: option.splits)

lemma add_peer_grows:
  assumes "bincode_deserialize L (raw_bytes raw) = Some (Keepalive_Msg ka)"
  shows "links_grow L (Raw_Udp (Some raw)) pl (add_peer ts (ka_peer_id ka) (received_from raw) pl)"
proof -
  have "new_to q (add_peer ts (ka_peer_id ka) (received_from raw) pl)" if "q \<notin> known_peers pl" for q
    using that
    by (auto simp: new_to_def fresh_to_def known_peers_def get_add_peer get_peer_tx_counter_def
        get_peer_sequencer_def split: option.splits)
  moreover have "peer_connection pl q a \<noteq> None \<or> announces L (Raw_Udp (Some raw)) q a"
    if "peer_connection (add_peer ts (ka_peer_id ka) (received_from raw) pl) q a \<noteq> None" for q a
    using that assms
    by (auto simp: announces_def peer_connection_def get_add_peer hm.get_ins hm.get_new split: option.splits if_splits)
  ultimately show ?thesis by (simp add: links_grow_def)
qed

lemma summary_udp:
  assumes "sane_env t t' e" and "0 \<le> t" and "serializes L"
  shows "\<exists>m'. select_branch L e (Raw_Udp (Some raw)) m = Running m' \<and> turn_summary L e (Raw_Udp (Some raw)) m m'"
proof (cases "bincode_deserialize L (raw_bytes raw)")
  case None
  then show ?thesis
    by (simp add: select_branch_def handle_udp_packet_def peer_view_defs arrivals_in_def same_links_grow)
next
  case (Some msg)
  show ?thesis
  proof (cases msg)
    case (Packet_Msg p)
    with Some summary_packet [OF assms(1,2)] show ?thesis by simp
  next
    case (Keepalive_Msg ka)
    define as where "as = (if announces_route ka m then get_peer_connections (conn_order e) (ka_peer_id ka)
      (add_peer (clk e 0) (ka_peer_id ka) (received_from raw) (cm_peer_list m)) else [])"
    have "(if announces_route ka m then own_keepalives L m (get_peer_connections (conn_order e) (ka_peer_id ka)
      (add_peer (clk e 0) (ka_peer_id ka) (received_from raw) (cm_peer_list m))) else []) = own_keepalives L m as"
      by (simp add: as_def own_keepalives_def)
    then obtain d where "handle_incoming_keepalive L e ka (received_from raw) m = Running (m\<lparr>
        cm_peer_list := add_peer (clk e 0) (ka_peer_id ka) (received_from raw) (cm_peer_list m),
        traffic_director := d,
        udp_output_broadcast_to_remotes := udp_output_broadcast_to_remotes m @ own_keepalives L m as\<rparr>)"
      using handle_incoming_keepalive_eq [OF sane_envD(4) [OF assms(1)] assms(3), of ka "received_from raw" m]
      by auto
    with Some Keepalive_Msg show ?thesis
      by (simp add: select_branch_def handle_udp_packet_def peer_view_defs arrivals_in_def add_peer_keeps
          add_peer_grows own_keepalives_bytes [OF assms(3)])
  qed
qed

lemma summary_maintenance:
  assumes "sane_env t t' e" and "cm_stamped t m"
  shows "\<exists>m'. select_branch L e Maintenance_Tick m = Running m' \<and> turn_summary L e Maintenance_Tick m m'"
proof -
  have "is_running (handle_maintenance_tick e m)"
    using safe_handle_maintenance_tick [OF assms] by (simp add: safe_def)
  then obtain pl where pl: "prune_stale_peers (clk e 0 0) (cm_peer_list m) = Inr pl"
    and m': "handle_maintenance_tick e m = Running (m\<lparr>cm_peer_list := pl\<rparr>)"
    by (auto simp: handle_maintenance_tick_def Let_def split: sum.splits option.splits if_splits)
  have keep: "get_peer_tx_counter q pl = get_peer_tx_counter q (cm_peer_list m) \<and>
      get_peer_sequencer q pl = get_peer_sequencer q (cm_peer_list m) \<and>
      (peer_connection pl q a \<noteq> None \<longrightarrow> peer_connection (cm_peer_list m) q a \<noteq> None)" for q a
    by (cases "hm_get (peers (cm_peer_list m)) q")
      (auto simp: get_peer_tx_counter_def get_peer_sequencer_def peer_connection_def
        get_prune_stale_peers [OF pl] hm.get_retain split: option.splits if_splits)
  then have "known_peers pl = known_peers (cm_peer_list m)"
    using get_peer_sequencer_None_iff by (metis subsetI subset_antisym)
  with m' keep show ?thesis
    by (simp add: select_branch_def peer_view_defs links_grow_def new_to_def)
qed

lemma summary_keepalive:
  assumes "sane_env t t' e" and "serializes L"
  shows "\<exists>m'. select_branch L e Keepalive_Tick m = Running m' \<and> turn_summary L e Keepalive_Tick m m'"
  using send_keepalives_own [OF sane_envD(4) [OF assms(1)] assms(2)]
  by (simp add: select_branch_def handle_keepalive_def peer_view_defs same_links_grow own_keepalives_bytes [OF assms(2)])

text \<open>A node at time \<open>t\<close>: what the proofs about runs carry along.\<close>

definition node_at :: "system_time \<Rightarrow> connection_manager \<Rightarrow> bool" where
  "node_at t m \<longleftrightarrow> 0 \<le> t \<and> cm_inv m \<and> cm_stamped t m"

lemma turn_ends:
  assumes "serializes L" and "node_at t m" and "sane_env t t' e" and "open_event ev"
  obtains m' where "run_turn L e ev m = Running m'" and "node_at t' m'" and "turn_summary L e ev m m'"
proof -
  have "\<exists>m'. select_branch L e ev m = Running m' \<and> turn_summary L e ev m m'"
  proof (cases ev)
    case (Raw_Udp r)
    then show ?thesis using assms summary_udp [OF assms(3) _ assms(1)] by (auto simp: node_at_def)
  next
    case (From_Local r)
    then show ?thesis using assms summary_local [OF assms(3,1)] by (auto simp: node_at_def)
  qed (use assms summary_tick [OF assms(3)] summary_maintenance [OF assms(3)] summary_keepalive [OF assms(3,1)]
      in \<open>auto simp: node_at_def\<close>)
  then obtain m' where m': "run_turn L e ev m = Running m'" and sm: "turn_summary L e ev m m'"
    using assms(2) by (auto simp: node_at_def cm_inv_owned)
  have "safe t' (run_turn L e ev m)"
    using assms by (intro safe_run_turn) (auto simp: node_at_def)
  moreover have "cm_inv (final (run_turn L e ev m))"
    using assms(2) by (intro cm_inv_run_turn) (simp add: node_at_def)
  ultimately have "node_at t' m'"
    using m' assms(2) sane_envD(6) [OF assms(3)] by (simp add: node_at_def)
  with m' sm show ?thesis using that by blast
qed

section \<open>Runs\<close>

type_synonym turns = "(env \<times> cm_event) list"

text \<open>Turns in surroundings that behave, from time \<open>t\<close> on.\<close>

fun sane_run :: "system_time \<Rightarrow> turns \<Rightarrow> bool" where
  "sane_run t [] = True"
| "sane_run t ((e, ev) # turns) = (open_event ev \<and> (\<exists>t'. sane_env t t' e \<and> sane_run t' turns))"

text \<open>What the turns of a run contribute, one after the other, and what holds at each of them.\<close>

fun over_run :: "libs \<Rightarrow> (env \<Rightarrow> cm_event \<Rightarrow> connection_manager \<Rightarrow> 'x list) \<Rightarrow> turns \<Rightarrow> connection_manager \<Rightarrow> 'x list"
where
  "over_run L f [] m = []"
| "over_run L f ((e, ev) # turns) m = f e ev m @ over_run L f turns (final (run_turn L e ev m))"

fun always :: "libs \<Rightarrow> (env \<Rightarrow> cm_event \<Rightarrow> connection_manager \<Rightarrow> bool) \<Rightarrow> turns \<Rightarrow> connection_manager \<Rightarrow> bool"
where
  "always L P [] m = True"
| "always L P ((e, ev) # turns) m = (P e ev m \<and> always L P turns (final (run_turn L e ev m)))"

text \<open>The packets from the local device that are routed to peer \<open>b\<close>.\<close>

definition turn_routed :: "libs \<Rightarrow> u16 \<Rightarrow> env \<Rightarrow> cm_event \<Rightarrow> connection_manager \<Rightarrow> byte_vec list" where
  "turn_routed L b e ev m = (case ev of
     From_Local (Some pkt) \<Rightarrow> if b \<in> set (targets L e pkt m) then [pkt] else [] | _ \<Rightarrow> [])"

abbreviation routed_to :: "libs \<Rightarrow> u16 \<Rightarrow> turns \<Rightarrow> connection_manager \<Rightarrow> byte_vec list" where
  "routed_to L b \<equiv> over_run L (turn_routed L b)"

text \<open>The datagrams that the run has sent to the remotes.\<close>

definition emitted :: "libs \<Rightarrow> turns \<Rightarrow> connection_manager \<Rightarrow> outgoing_udp_packet list" where
  "emitted L turns m = drop (length (udp_output_broadcast_to_remotes m))
     (udp_output_broadcast_to_remotes (final (run_loop L turns m)))"

text \<open>The packets handed to the local device, and the life of the sequencer kept for peer \<open>a\<close>.\<close>

abbreviation delivered :: "libs \<Rightarrow> turns \<Rightarrow> connection_manager \<Rightarrow> packet list" where
  "delivered L \<equiv> over_run L (turn_out L)"

abbreviation life_of :: "libs \<Rightarrow> u16 \<Rightarrow> turns \<Rightarrow> connection_manager \<Rightarrow> seq_event list" where
  "life_of L a \<equiv> over_run L (peer_events L a)"

abbreviation arrivals :: "libs \<Rightarrow> u16 \<Rightarrow> turns \<Rightarrow> connection_manager \<Rightarrow> (packet \<times> (nat \<Rightarrow> system_time)) list" where
  "arrivals L a \<equiv> over_run L (turn_arrivals L a)"

lemma run_loop_simps:
  "run_loop L [] m = Running m"
  "run_loop L ((e, ev) # turns) m = chain (run_turn L e ev m) (run_loop L turns)"
  by (simp_all add: run_loop_def [abs_def])

text \<open>Induction over the turns of a run in surroundings that behave.\<close>

lemma run_induct [consumes 3, case_names Nil Cons]:
  assumes "serializes L" and "node_at t m" and "sane_run t turns"
    and "\<And>m. P [] m"
    and "\<And>e ev turns m m1 t t'. node_at t m \<Longrightarrow> sane_env t t' e \<Longrightarrow> open_event ev \<Longrightarrow>
      run_turn L e ev m = Running m1 \<Longrightarrow> turn_summary L e ev m m1 \<Longrightarrow> node_at t' m1 \<Longrightarrow> sane_run t' turns \<Longrightarrow>
      P turns m1 \<Longrightarrow> P ((e, ev) # turns) m"
  shows "P turns m"
  using assms(2,3)
proof (induction turns arbitrary: t m)
  case (Cons turn turns)
  obtain e ev where turn: "turn = (e, ev)" by (cases turn)
  with Cons.prems obtain t' where se: "sane_env t t' e" "open_event ev" and rest: "sane_run t' turns" by auto
  with assms(1) Cons.prems(1) obtain m1
    where "run_turn L e ev m = Running m1" "node_at t' m1" "turn_summary L e ev m m1"
    using turn_ends by metis
  with Cons.IH [OF _ rest] Cons.prems(1) se rest show ?case by (simp add: turn assms(5))
qed (simp add: assms(4))

lemma run_ends:
  assumes "serializes L" and "node_at t m" and "sane_run t turns"
  shows "\<exists>m'. run_loop L turns m = Running m' \<and>
    packets_to_local m' = packets_to_local m @ map bytes (delivered L turns m) \<and>
    udp_output_broadcast_to_remotes m' = udp_output_broadcast_to_remotes m @ emitted L turns m"
  using assms
proof (induction rule: run_induct)
  case (Cons e ev turns m m1 t t')
  from Cons.IH obtain m' where m': "run_loop L turns m1 = Running m'"
      "packets_to_local m' = packets_to_local m1 @ map bytes (delivered L turns m1)"
      "udp_output_broadcast_to_remotes m' = udp_output_broadcast_to_remotes m1 @ emitted L turns m1" by blast
  obtain out where "udp_output_broadcast_to_remotes m1 = udp_output_broadcast_to_remotes m @ out"
      "packets_to_local m1 = packets_to_local m @ map bytes (turn_out L e ev m)"
    using Cons.hyps(5) by (auto simp: turn_summary_def)
  with m' Cons.hyps(4) show ?case by (simp add: run_loop_simps emitted_def [of L "(e, ev) # turns"])
qed (simp add: run_loop_simps emitted_def)

lemma emitted_Cons:
  assumes "serializes L" and "node_at t m1" and "sane_run t turns"
    and "run_turn L e ev m = Running m1" and "turn_summary L e ev m m1"
  obtains out where "emitted L ((e, ev) # turns) m = out @ emitted L turns m1" and "emits L e ev m out"
proof -
  obtain out where out: "udp_output_broadcast_to_remotes m1 = udp_output_broadcast_to_remotes m @ out"
    and em: "emits L e ev m out"
    using assms(5) by (auto simp: turn_summary_def)
  obtain m' where "run_loop L turns m1 = Running m'"
      "udp_output_broadcast_to_remotes m' = udp_output_broadcast_to_remotes m1 @ emitted L turns m1"
    using run_ends [OF assms(1-3)] by blast
  with out assms(4) have "emitted L ((e, ev) # turns) m = out @ emitted L turns m1"
    by (simp add: emitted_def [of L "(e, ev) # turns"] run_loop_simps)
  then show ?thesis using em by (rule that)
qed

section \<open>The sender numbers its packets\<close>

text \<open>The n-th packet routed to a peer, as it travels.\<close>

definition numbered :: "u16 \<Rightarrow> u64 \<Rightarrow> byte_vec list \<Rightarrow> nat \<Rightarrow> packet" where
  "numbered a c payloads n = \<lparr>seq = c + of_nat n, peer_id = a, bytes = payloads ! n\<rparr>"

text \<open>The next number for a peer; one that becomes known starts at 0.\<close>

definition count_to :: "u16 \<Rightarrow> peer_list \<Rightarrow> u64" where
  "count_to b pl = (case get_peer_tx_counter b pl of Inl _ \<Rightarrow> 0 | Inr c \<Rightarrow> c)"

lemma count_to_new: "new_to b pl \<Longrightarrow> count_to b pl = 0"
  using get_peer_tx_counter_Inl_iff [of b pl] by (auto simp: new_to_def fresh_to_def count_to_def)

text \<open>The addresses in \<open>D\<close> are those of peer \<open>b\<close> and of no other: now, and in what is announced later.\<close>

definition reaches_only :: "socket_addr set \<Rightarrow> u16 \<Rightarrow> peer_list \<Rightarrow> bool" where
  "reaches_only D b pl \<longleftrightarrow> (\<forall>q a. a \<in> D \<longrightarrow> peer_connection pl q a \<noteq> None \<longrightarrow> q = b)"

definition announced_only :: "libs \<Rightarrow> socket_addr set \<Rightarrow> u16 \<Rightarrow> turns \<Rightarrow> bool" where
  "announced_only L D b turns = list_all (\<lambda>(e, ev). case ev of
     Raw_Udp (Some raw) \<Rightarrow> received_from raw \<in> D \<longrightarrow> (case bincode_deserialize L (raw_bytes raw) of
       Some (Keepalive_Msg ka) \<Rightarrow> ka_peer_id ka = b
     | _ \<Rightarrow> True)
   | _ \<Rightarrow> True) turns"

lemma reaches_only_turn:
  assumes "reaches_only D b (cm_peer_list m)" and "announced_only L D b ((e, ev) # turns)"
    and "turn_summary L e ev m m1"
  shows "reaches_only D b (cm_peer_list m1)"
proof -
  have "announces L ev q a \<Longrightarrow> a \<in> D \<Longrightarrow> q = b" for q a
    using assms(2)
    by (auto simp: announces_def announced_only_def split: cm_event.splits option.splits messages.splits)
  with assms(1,3) show ?thesis unfolding reaches_only_def turn_summary_def links_grow_def by metis
qed

lemma length_turn_routed:
  "length (turn_routed L b e ev m) = of_bool (b \<in> set (turn_targets L e ev m))"
  by (simp add: turn_routed_def turn_targets_def split: cm_event.splits option.splits)

lemma turn_targets_known: "cm_inv m \<Longrightarrow> set (turn_targets L e ev m) \<subseteq> known_peers (cm_peer_list m)"
  using targets_known [of m L e] by (cases ev; cases "case ev of From_Local r \<Rightarrow> r | _ \<Rightarrow> None") (simp_all add: turn_targets_def)

lemma count_to_turn:
  assumes "node_at t m" and "turn_summary L e ev m m1"
  shows "count_to b (cm_peer_list m1) = count_to b (cm_peer_list m) + of_nat (length (turn_routed L b e ev m))"
proof (cases "b \<in> known_peers (cm_peer_list m)")
  case True
  then obtain c where "get_peer_tx_counter b (cm_peer_list m) = Inr c"
    using get_peer_tx_counter_Inl_iff [of b "cm_peer_list m"] by (metis sum.exhaust)
  with True assms(2) show ?thesis by (simp add: count_to_def turn_summary_def length_turn_routed)
next
  case False
  then have "b \<notin> set (turn_targets L e ev m)" using turn_targets_known assms(1) unfolding node_at_def by blast
  moreover have "new_to b (cm_peer_list m1)" using False assms(2) by (simp add: turn_summary_def links_grow_def)
  moreover have "new_to b (cm_peer_list m)" using False by (simp add: new_to_def)
  ultimately show ?thesis by (simp add: count_to_new length_turn_routed)
qed

lemma copy_numbered:
  assumes "node_at t m" and "b \<in> set (targets L e pkt m)" and "d \<in> set (copies L e pkt m b)"
  shows "packet_bytes d = the (bincode_serialize L (Packet_Msg
    (numbered (own_peer_id m) (count_to b (cm_peer_list m)) (pkt # ps) 0)))"
proof -
  have "b \<in> known_peers (cm_peer_list m)" using assms(1,2) targets_known unfolding node_at_def by blast
  then obtain c where "get_peer_tx_counter b (cm_peer_list m) = Inr c"
    using get_peer_tx_counter_Inl_iff [of b "cm_peer_list m"] by (metis sum.exhaust)
  with assms(3) show ?thesis by (auto simp: copies_def tunnel_datagram_def numbered_def count_to_def)
qed

text \<open>The datagram that carries the n-th of the payloads to a peer, counting from \<open>c\<close>.\<close>

definition carrying :: "libs \<Rightarrow> u16 \<Rightarrow> u64 \<Rightarrow> byte_vec list \<Rightarrow> nat \<Rightarrow> byte_vec" where
  "carrying L a c payloads n = the (bincode_serialize L (Packet_Msg (numbered a c payloads n)))"

lemma carrying_later:
  "carrying L a c (r @ rs) (length r + n) = carrying L a (c + of_nat (length r)) rs n"
  by (simp add: carrying_def numbered_def add.assoc)

text \<open>What a turn emits to \<open>D\<close> is a keepalive or carries the packet the turn routes to \<open>b\<close>.\<close>

lemma turn_emits:
  assumes "node_at t m" and "reaches_only D b (cm_peer_list m)" and "emits L e ev m out"
    and "d \<in> set out" and "destination d \<in> D"
  shows "keepalive_bytes L (packet_bytes d) \<or> turn_routed L b e ev m \<noteq> [] \<and>
    packet_bytes d = carrying L (own_peer_id m) (count_to b (cm_peer_list m)) (turn_routed L b e ev m @ rs) 0"
proof (cases "\<exists>pkt. ev = From_Local (Some pkt)")
  case True
  then obtain pkt where ev: "ev = From_Local (Some pkt)" by blast
  with assms(3,4) obtain q where q: "q \<in> set (targets L e pkt m)" "d \<in> set (copies L e pkt m q)"
    by (auto simp: emits_def)
  then have "destination d \<in> dom (peer_connection (cm_peer_list m) q)"
    by (auto simp: copies_def simp flip: set_get_peer_connections [of "conn_order e"])
  with assms(2,5) have "q = b" by (auto simp: reaches_only_def)
  with q copy_numbered [OF assms(1), of b L e pkt d rs] show ?thesis
    by (simp add: turn_routed_def ev carrying_def)
next
  case False
  with assms(3,4) show ?thesis by (auto simp: emits_def split: cm_event.splits option.splits)
qed

lemma sender_emits:
  assumes "serializes L" and "node_at t m" and "sane_run t turns"
    and "reaches_only D b (cm_peer_list m)" and "announced_only L D b turns"
    and "d \<in> set (emitted L turns m)" and "destination d \<in> D"
  shows "keepalive_bytes L (packet_bytes d) \<or> (\<exists>n < length (routed_to L b turns m).
    packet_bytes d = carrying L (own_peer_id m) (count_to b (cm_peer_list m)) (routed_to L b turns m) n)"
  using assms
proof (induction rule: run_induct)
  case (Cons e ev turns m m1 t t')
  let ?r = "turn_routed L b e ev m" and ?rs = "routed_to L b turns m1"
  obtain out where out: "emitted L ((e, ev) # turns) m = out @ emitted L turns m1" "emits L e ev m out"
    using emitted_Cons [OF assms(1) Cons.hyps(6,7,4,5)] .
  from Cons.prems(3) out(1) consider "d \<in> set out" | "d \<in> set (emitted L turns m1)" by auto
  then show ?case
  proof cases
    case 1
    from turn_emits [OF Cons.hyps(1) Cons.prems(1) out(2) 1 Cons.prems(4), of ?rs] show ?thesis
      by (auto simp: Cons.hyps(4))
  next
    case 2
    have "own_peer_id m1 = own_peer_id m" using Cons.hyps(5) by (simp add: turn_summary_def)
    with Cons.IH [OF reaches_only_turn [OF Cons.prems(1,2) Cons.hyps(5)] _ 2 Cons.prems(4)] Cons.prems(2)
    have "keepalive_bytes L (packet_bytes d) \<or> (\<exists>n < length ?rs. packet_bytes d =
        carrying L (own_peer_id m) (count_to b (cm_peer_list m)) (?r @ ?rs) (length ?r + n))"
      unfolding carrying_later count_to_turn [OF Cons.hyps(1,5), symmetric] by (simp add: announced_only_def)
    then consider "keepalive_bytes L (packet_bytes d)"
      | n where "n < length ?rs" and "packet_bytes d =
        carrying L (own_peer_id m) (count_to b (cm_peer_list m)) (?r @ ?rs) (length ?r + n)" by blast
    then show ?thesis
    proof cases
      case 2
      then show ?thesis by (intro disjI2 exI [of _ "length ?r + n"]) (simp add: Cons.hyps(4))
    qed simp
  qed
qed (simp add: emitted_def run_loop_simps)

text \<open>While \<open>b\<close> has a connection in \<open>D\<close> whenever a packet is routed to it, none is left out.\<close>

definition connected :: "libs \<Rightarrow> socket_addr set \<Rightarrow> u16 \<Rightarrow> env \<Rightarrow> cm_event \<Rightarrow> connection_manager \<Rightarrow> bool" where
  "connected L D b e ev m = (b \<in> set (turn_targets L e ev m) \<longrightarrow>
     list_ex (\<lambda>a. a \<in> D) (get_peer_connections (conn_order e) b (cm_peer_list m)))"

lemma turn_emits_all:
  assumes "node_at t m" and "connected L D b e ev m" and "emits L e ev m out" and "n < length (turn_routed L b e ev m)"
  shows "\<exists>d \<in> set out. destination d \<in> D \<and>
    packet_bytes d = carrying L (own_peer_id m) (count_to b (cm_peer_list m)) (turn_routed L b e ev m @ rs) n"
proof -
  from assms(4) obtain pkt where ev: "ev = From_Local (Some pkt)" and b: "b \<in> set (targets L e pkt m)" and n: "n = 0"
    by (auto simp: turn_routed_def split: cm_event.splits option.splits if_splits)
  with assms(2) obtain a where a: "a \<in> D" "a \<in> set (get_peer_connections (conn_order e) b (cm_peer_list m))"
    by (auto simp: connected_def turn_targets_def list_ex_iff)
  let ?d = "\<lparr>destination = a, packet_bytes = tunnel_datagram L m pkt b\<rparr>"
  from a have d: "?d \<in> set (copies L e pkt m b)" by (simp add: copies_def)
  with assms(3) ev b have "?d \<in> set out" by (auto simp: emits_def)
  with a(1) copy_numbered [OF assms(1) b d, of rs] show ?thesis
    by (intro bexI [of _ ?d]) (simp_all add: turn_routed_def ev b n carrying_def)
qed

lemma sender_complete:
  assumes "serializes L" and "node_at t m" and "sane_run t turns"
    and "always L (connected L D b) turns m" and "n < length (routed_to L b turns m)"
  shows "\<exists>d \<in> set (emitted L turns m). destination d \<in> D \<and>
    packet_bytes d = carrying L (own_peer_id m) (count_to b (cm_peer_list m)) (routed_to L b turns m) n"
  using assms
proof (induction arbitrary: n rule: run_induct)
  case (Cons e ev turns m m1 t t')
  let ?r = "turn_routed L b e ev m" and ?rs = "routed_to L b turns m1"
  obtain out where out: "emitted L ((e, ev) # turns) m = out @ emitted L turns m1" "emits L e ev m out"
    using emitted_Cons [OF assms(1) Cons.hyps(6,7,4,5)] .
  have con: "connected L D b e ev m" and rest: "always L (connected L D b) turns m1"
    and n: "n < length (?r @ ?rs)"
    using Cons.prems by (simp_all add: Cons.hyps(4))
  show ?case
  proof (cases "n < length ?r")
    case True
    from turn_emits_all [OF Cons.hyps(1) con out(2) True, of ?rs] show ?thesis
      unfolding out(1) by (auto simp: Cons.hyps(4))
  next
    case False
    then obtain k where k: "n = length ?r + k" using le_Suc_ex not_less by blast
    have "own_peer_id m1 = own_peer_id m" using Cons.hyps(5) by (simp add: turn_summary_def)
    with Cons.IH [OF rest, of k] n k
    have "\<exists>d \<in> set (emitted L turns m1). destination d \<in> D \<and> packet_bytes d =
        carrying L (own_peer_id m) (count_to b (cm_peer_list m)) (?r @ ?rs) (length ?r + k)"
      unfolding carrying_later count_to_turn [OF Cons.hyps(1,5), symmetric] by simp
    then show ?thesis unfolding out(1) k by (auto simp: Cons.hyps(4))
  qed
qed simp

section \<open>The receiver lives the sequencer's life\<close>

lemma seq_run_append:
  "seq_run (xs @ ys) s = (fst (seq_run xs s) @ fst (seq_run ys (snd (seq_run xs s))), snd (seq_run ys (snd (seq_run xs s))))"
  by (simp add: run_events_append Let_def case_prod_beta)

text \<open>What is delivered was stored or has arrived: any property of packets passes through.\<close>

lemma seq_step_passes:
  assumes "seq_inv s" and "\<And>k p. bt_lookup (packet_queue s) k = Some p \<Longrightarrow> P p" and "arrives_only P ev"
  shows "p \<in> set (fst (seq_step ev s)) \<Longrightarrow> P p"
    and "bt_lookup (packet_queue (snd (seq_step ev s))) k = Some p \<Longrightarrow> P p"
    and "seq_inv (snd (seq_step ev s))"
proof -
  have inv: "seq_inv (prepared ev s)"
    using assms(1) seq_inv_insert seq_inv_advance [OF assms(1)]
    by (cases ev) (simp_all add: prepared_def advance_queue_eq)
  have P: "P p" if "bt_lookup (packet_queue (prepared ev s)) k = Some p" for k p
    using that assms(2,3)
    by (cases ev) (auto simp: prepared_def insert_packet_def bt.lookup_or_insert advance_queue_eq
        split: if_splits option.splits)
  show "P p" if "p \<in> set (fst (seq_step ev s))"
    using that P pending_lookup [OF inv] by (auto simp: seq_step_prepared)
  show "P p" if "bt_lookup (packet_queue (snd (seq_step ev s))) k = Some p"
    using that P by (auto simp: seq_step_prepared lookup_drained [OF inv] split: if_splits)
  show "seq_inv (snd (seq_step ev s))"
    using inv by (simp add: seq_step_prepared seq_inv_drained)
qed

lemma seq_run_passes:
  assumes "seq_inv s" and "\<And>k p. bt_lookup (packet_queue s) k = Some p \<Longrightarrow> P p" and "list_all (arrives_only P) evs"
  shows "p \<in> set (fst (seq_run evs s)) \<Longrightarrow> P p"
  using assms
proof (induction evs arbitrary: s)
  case (Cons ev evs)
  from Cons.prems have P: "list_all (arrives_only P) evs" and ev: "arrives_only P ev" by simp_all
  note step = seq_step_passes [OF Cons.prems(2,3) ev]
  from Cons.prems(1) consider "p \<in> set (fst (seq_step ev s))" | "p \<in> set (fst (seq_run evs (snd (seq_step ev s))))"
    by (auto simp: Let_def case_prod_beta simp del: seq_step.simps)
  then show ?case
    using step(1) Cons.IH [OF _ step(3) step(2) P] by cases auto
qed simp

text \<open>Of what a turn delivers, the packets of peer \<open>a\<close> are those of its sequencer.\<close>

lemma delivered_peer:
  assumes "cm_inv m" and "get_peer_sequencer q (cm_peer_list m) = Some s"
    and "arrives_only (\<lambda>p. peer_id p = q) sev" and "p \<in> set (fst (seq_step sev s))"
  shows "peer_id p = q"
proof -
  have "peer_list_inv (cm_peer_list m)" using assms(1) by (simp add: cm_inv_def)
  from seq_step_passes(1) [where P = "\<lambda>p. peer_id p = q", OF peer_inv_seqD [OF this assms(2)] assms(3,4)]
  show ?thesis .
qed

lemma arrival_out_from:
  assumes "cm_inv m" and a: "get_peer_sequencer a (cm_peer_list m) = Some s"
    and p: "bincode_deserialize L (raw_bytes raw) = Some (Packet_Msg p)"
  shows "filter (\<lambda>p. peer_id p = a) (turn_out L e (Raw_Udp (Some raw)) m) =
    fst (seq_run (map arrive (arrivals_in L e a raw m)) s)"
proof (cases "get_peer_sequencer (peer_id p) (cm_peer_list m)")
  case None
  with a have "peer_id p \<noteq> a" by auto
  with None show ?thesis by (simp add: turn_out_def arrivals_in_def p)
next
  case (Some s')
  have "peer_id r = peer_id p" if "r \<in> set (fst (seq_step (Arrive p (clk e 1)) s'))" for r
    using delivered_peer [OF assms(1) Some _ that] by simp
  with Some a show ?thesis
    by (cases "peer_id p = a")
      (auto simp: turn_out_def arrivals_in_def p Let_def case_prod_beta filter_id_conv filter_empty_conv
        simp del: seq_step.simps)
qed

lemma tick_out_from:
  assumes "cm_inv m" and a: "get_peer_sequencer a (cm_peer_list m) = Some s"
  shows "filter (\<lambda>p. peer_id p = a) (turn_out L e Sequencer_Tick m) = fst (seq_run (tick_events e a m) s)"
proof -
  have d: "distinct (map snd (tick_jobs e m))" by (simp add: tick_jobs_def)
  have "a \<in> snd ` set (tick_jobs e m)"
    using a get_peer_sequencer_None_iff [of a "cm_peer_list m"] by (simp add: tick_jobs_def flip: set_map)
  then obtain j where j: "(j, a) \<in> set (tick_jobs e m)" by auto
  have "filter (\<lambda>p. peer_id p = a) (tick_peer e m (i, q)) =
      (if q = a then fst (tick_step e i s) else [])" for i q
  proof (cases "get_peer_sequencer q (cm_peer_list m)")
    case None
    with a show ?thesis by (auto simp: tick_peer_def)
  next
    case (Some s')
    have "peer_id r = q" if "r \<in> set (fst (tick_step e i s'))" for r
      using that delivered_peer [OF assms(1) Some, of "Expire (later (clk e i))" r]
      by (auto simp: tick_step_def simp del: seq_step.simps split: if_splits)
    with Some a show ?thesis by (cases "q = a") (auto simp: tick_peer_def filter_id_conv filter_empty_conv)
  qed
  then have "(\<lambda>job. filter (\<lambda>p. peer_id p = a) (tick_peer e m job)) =
      (\<lambda>(i, q). if q = a then fst (tick_step e i s) else [])" by auto
  then have "filter (\<lambda>p. peer_id p = a) (concat (map (tick_peer e m) (tick_jobs e m))) =
      concat (map (\<lambda>(i, q). if q = a then fst (tick_step e i s) else []) (tick_jobs e m))"
    by (simp add: filter_concat comp_def)
  also have "\<dots> = fst (tick_step e j s)" by (rule concat_select [OF d j])
  also have "\<dots> = fst (seq_run (tick_events e a m) s)"
    unfolding tick_events_def
    by (subst concat_select [OF d j]) (simp add: a tick_step_def Let_def case_prod_beta del: seq_step.simps)
  finally show ?thesis by (simp add: turn_out_def)
qed

lemma turn_out_from:
  assumes "cm_inv m" and "get_peer_sequencer a (cm_peer_list m) = Some s"
  shows "filter (\<lambda>p. peer_id p = a) (turn_out L e ev m) = fst (seq_run (peer_events L a e ev m) s)"
  using arrival_out_from [OF assms, of L _ _ e] tick_out_from [OF assms, of L e]
  by (auto simp: turn_out_def peer_events_def arrivals_in_def
      split: cm_event.splits option.splits messages.splits)

text \<open>A peer that is not known has no packets and no events.\<close>

lemma turn_out_known:
  assumes "cm_inv m" and "p \<in> set (turn_out L e ev m)"
  shows "get_peer_sequencer (peer_id p) (cm_peer_list m) \<noteq> None"
proof -
  have known: "get_peer_sequencer (peer_id p) (cm_peer_list m) \<noteq> None"
    if "get_peer_sequencer q (cm_peer_list m) = Some s" "p \<in> set (fst (seq_step sev s))"
      "arrives_only (\<lambda>p. peer_id p = q) sev" for q s sev
    using delivered_peer [OF assms(1) that(1,3,2)] that(1) by simp
  show ?thesis
  proof (cases ev)
    case (Raw_Udp r)
    then have "\<exists>r s. get_peer_sequencer (peer_id r) (cm_peer_list m) = Some s \<and>
        p \<in> set (fst (seq_step (Arrive r (clk e 1)) s))"
      using assms(2)
      by (auto simp: turn_out_def eq_commute simp del: seq_step.simps split: option.splits messages.splits)
    then show ?thesis using known by fastforce
  next
    case Sequencer_Tick
    with assms(2) obtain j q where "p \<in> set (tick_peer e m (j, q))" by (auto simp: turn_out_def)
    then obtain s where "get_peer_sequencer q (cm_peer_list m) = Some s"
        and "p \<in> set (fst (seq_step (Expire (later (clk e j))) s))"
      by (cases "get_peer_sequencer q (cm_peer_list m)")
        (auto simp: tick_peer_def tick_step_def simp del: seq_step.simps split: if_split_asm)
    then show ?thesis by (rule known) simp
  qed (use assms(2) in \<open>simp_all add: turn_out_def split: option.splits\<close>)
qed

lemma peer_events_unknown:
  "get_peer_sequencer a (cm_peer_list m) = None \<Longrightarrow> peer_events L a e ev m = []"
  by (auto simp: peer_events_def arrivals_in_def tick_events_def concat_eq_Nil_conv
      split: cm_event.splits option.splits messages.splits)

lemma receiver_lives:
  assumes "serializes L" and "node_at t m" and "sane_run t turns"
    and "get_peer_sequencer a (cm_peer_list m) = Some s"
  shows "filter (\<lambda>p. peer_id p = a) (delivered L turns m) = fst (seq_run (life_of L a turns m) s)"
  using assms
proof (induction arbitrary: s rule: run_induct)
  case (Cons e ev turns m m1 t t')
  have "get_peer_sequencer a (cm_peer_list m1) = Some (snd (seq_run (peer_events L a e ev m) s))"
    using Cons.hyps(5) Cons.prems by (simp add: turn_summary_def)
  from Cons.IH [OF this] turn_out_from [OF _ Cons.prems, of L e ev] Cons.hyps(1,4) show ?case
    by (simp add: seq_run_append node_at_def)
qed simp

section \<open>A receiver that does not give up\<close>

text \<open>The deadline of \<open>a\<close>'s sequencer does not run out while packets wait in its queue. (Where nothing
  waits it runs out all the time, to no effect.)\<close>

definition patient :: "u16 \<Rightarrow> env \<Rightarrow> cm_event \<Rightarrow> connection_manager \<Rightarrow> bool" where
  "patient a e ev m = (case ev of
     Sequencer_Tick \<Rightarrow> (case get_peer_sequencer a (cm_peer_list m) of
       Some s \<Rightarrow> get_queue_length s = 0 \<or> tick_events e a m = []
     | None \<Rightarrow> True)
   | _ \<Rightarrow> True)"

lemma idle_expire:
  assumes "get_queue_length s = 0"
  shows "seq_step (Expire ts) s = ([], s)"
proof -
  have "bt_entries (packet_queue s) = []" using assms by (simp add: get_queue_length_def bt_len_def)
  then have "\<not> have_next_packet s" and "pending s = []" and "advance_queue s = Inr s"
    by (simp_all add: have_next_packet_def advance_queue_eq bt_first_def pending_def)
  then show ?thesis by (simp add: drained_def)
qed

lemma tick_events_expire: "sev \<in> set (tick_events e a m) \<Longrightarrow> \<exists>ts. sev = Expire ts"
proof -
  assume "sev \<in> set (tick_events e a m)"
  then obtain j q where "sev \<in> set (if q = a
     then (case get_peer_sequencer a (cm_peer_list m) of
             None \<Rightarrow> []
           | Some s \<Rightarrow> if deadline s < clk e j 0 - last_update s then [Expire (later (clk e j))] else [])
     else [])" by (auto simp only: tick_events_def set_concat set_map)
  then show ?thesis
    by (cases "q = a"; cases "get_peer_sequencer a (cm_peer_list m)") (simp_all split: if_split_asm)
qed

lemma idle_expires:
  assumes "get_queue_length s = 0" and "\<And>sev. sev \<in> set evs \<Longrightarrow> \<exists>ts. sev = Expire ts"
  shows "seq_run evs s = ([], s)"
  using assms(2)
proof (induction evs)
  case (Cons sev evs)
  then obtain ts where "sev = Expire ts" by auto
  with Cons idle_expire [OF assms(1)] show ?case by (simp del: seq_step.simps)
qed simp

lemma patient_turn:
  assumes "patient a e ev m" and "get_peer_sequencer a (cm_peer_list m) = Some s"
  shows "seq_run (peer_events L a e ev m) s = seq_run (map arrive (turn_arrivals L a e ev m)) s"
  using assms idle_expires [of s "tick_events e a m", OF _ tick_events_expire]
  by (auto simp: peer_events_def turn_arrivals_def patient_def split: cm_event.splits option.splits)

lemma patient_life:
  assumes "serializes L" and "node_at t m" and "sane_run t turns" and "always L (patient a) turns m"
    and "get_peer_sequencer a (cm_peer_list m) = Some s"
  shows "seq_run (life_of L a turns m) s = seq_run (map arrive (arrivals L a turns m)) s"
  using assms
proof (induction arbitrary: s rule: run_induct)
  case (Cons e ev turns m m1 t t')
  have "get_peer_sequencer a (cm_peer_list m1) = Some (snd (seq_run (peer_events L a e ev m) s))"
    using Cons.hyps(5) Cons.prems(2) by (simp add: turn_summary_def)
  with Cons.IH [OF _ this] Cons.prems(1) patient_turn [OF _ Cons.prems(2), of e ev L] Cons.hyps(4) show ?case
    by (simp add: seq_run_append)
qed simp

lemma turn_arrivals_unknown:
  "get_peer_sequencer a (cm_peer_list m) = None \<Longrightarrow> turn_arrivals L a e ev m = []"
  by (auto simp: turn_arrivals_def arrivals_in_def split: cm_event.splits option.splits messages.splits)

text \<open>All this also covers a peer that becomes known in the middle of the run.\<close>

lemma new_receiver_lives:
  assumes "serializes L" and "node_at t m" and "sane_run t turns" and "new_to a (cm_peer_list m)"
  shows "\<exists>now. filter (\<lambda>p. peer_id p = a) (delivered L turns m) =
      fst (seq_run (life_of L a turns m) (sequencer_new (from_millis 3) now)) \<and>
    (always L (patient a) turns m \<longrightarrow> filter (\<lambda>p. peer_id p = a) (delivered L turns m) =
      fst (seq_run (map arrive (arrivals L a turns m)) (sequencer_new (from_millis 3) now)))"
  using assms
proof (induction rule: run_induct)
  case (Cons e ev turns m m1 t t')
  show ?case
  proof (cases "get_peer_sequencer a (cm_peer_list m)")
    case None
    have "new_to a (cm_peer_list m1)"
      using Cons.hyps(5) None get_peer_sequencer_None_iff [of a "cm_peer_list m"]
      by (simp add: turn_summary_def links_grow_def)
    moreover have "filter (\<lambda>p. peer_id p = a) (turn_out L e ev m) = []"
      using turn_out_known [of m _ L e ev] None Cons.hyps(1) by (fastforce simp: filter_empty_conv node_at_def)
    ultimately show ?thesis
      using Cons.IH Cons.hyps(4) peer_events_unknown [OF None] turn_arrivals_unknown [OF None] by auto
  next
    case (Some s)
    then have "fresh_to a (cm_peer_list m)"
      using Cons.prems get_peer_sequencer_None_iff [of a "cm_peer_list m"] by (auto simp: new_to_def)
    then obtain now where now: "get_peer_sequencer a (cm_peer_list m) = Some (sequencer_new (from_millis 3) now)"
      by (auto simp: fresh_to_def)
    have sane: "sane_run t ((e, ev) # turns)" using Cons.hyps(2,3,7) by auto
    show ?thesis
      using receiver_lives [OF assms(1) Cons.hyps(1) sane now] patient_life [OF assms(1) Cons.hyps(1) sane _ now]
      by auto
  qed
qed simp

section \<open>The network between them\<close>

text \<open>What \<open>bincode\<close> writes, it reads back.\<close>

definition decodes :: "libs \<Rightarrow> bool" where
  "decodes L \<longleftrightarrow> (\<forall>msg b. bincode_serialize L msg = Some b \<longrightarrow> bincode_deserialize L b = Some msg)"

text \<open>The network may lose, duplicate, delay and reorder datagrams, on every connection; it does not
  make up packets in the name of node \<open>a\<close>: their bytes are those of a datagram that was sent to one
  of the addresses \<open>D\<close> of the receiver.\<close>

definition sent_towards :: "socket_addr set \<Rightarrow> outgoing_udp_packet list \<Rightarrow> byte_vec list" where
  "sent_towards D sent = map packet_bytes (filter (\<lambda>d. destination d \<in> D) sent)"

definition carries :: "libs \<Rightarrow> u16 \<Rightarrow> byte_vec list \<Rightarrow> turns \<Rightarrow> bool" where
  "carries L a sent turns = list_all (\<lambda>(e, ev). case ev of
     Raw_Udp (Some raw) \<Rightarrow> (case bincode_deserialize L (raw_bytes raw) of
       Some (Packet_Msg p) \<Rightarrow> peer_id p = a \<longrightarrow> raw_bytes raw \<in> set sent
     | _ \<Rightarrow> True)
   | _ \<Rightarrow> True) turns"

definition genuine :: "u16 \<Rightarrow> byte_vec list \<Rightarrow> packet \<Rightarrow> bool" where
  "genuine a payloads p \<longleftrightarrow> (\<exists>n < length payloads. p = numbered a 0 payloads n)"

lemma genuineD:
  assumes "genuine a payloads p" and "length payloads < 2 ^ 64"
  shows "unat (seq p) < length payloads" and "bytes p = payloads ! unat (seq p)"
    and "p = numbered a 0 payloads (unat (seq p))" and "seq p \<noteq> u64_max"
proof -
  from assms(1) obtain n where n: "n < length payloads" "p = numbered a 0 payloads n"
    by (auto simp: genuine_def)
  with assms(2) have "unat (seq p) = n" by (simp add: numbered_def unat_of_nat_u64)
  with n assms(2) show "unat (seq p) < length payloads" and "bytes p = payloads ! unat (seq p)"
    and "p = numbered a 0 payloads (unat (seq p))" and "seq p \<noteq> u64_max"
    by (simp_all add: numbered_def u64_eq_max_iff)
qed

lemma genuine_below_top:
  assumes "list_all (arrives_only (genuine a payloads)) evs" and "length payloads < 2 ^ 64"
  shows "list_all event_below_top evs"
proof -
  have "event_below_top ev" if "arrives_only (genuine a payloads) ev" for ev
    using that genuineD(4) [OF _ assms(2)] by (cases ev) simp_all
  with assms(1) show ?thesis by (simp add: list_all_iff)
qed

lemma over_run_list_all:
  assumes "\<And>e ev m. (e, ev) \<in> set turns \<Longrightarrow> list_all P (f e ev m)"
  shows "list_all P (over_run L f turns m)"
  using assms by (induction L f turns m rule: over_run.induct) auto

lemma decodes_keepalive: "decodes L \<Longrightarrow> keepalive_bytes L b \<Longrightarrow> \<exists>ka. bincode_deserialize L b = Some (Keepalive_Msg ka)"
  by (auto simp: keepalive_bytes_def decodes_def)

lemma decodes_carrying:
  assumes "serializes L" and "decodes L"
  shows "bincode_deserialize L (carrying L a c payloads n) = Some (Packet_Msg (numbered a c payloads n))"
proof -
  obtain b where "bincode_serialize L (Packet_Msg (numbered a c payloads n)) = Some b"
    using assms(1) by (rule serializesE)
  with assms(2) show ?thesis by (simp add: decodes_def carrying_def)
qed

text \<open>The datagrams a node emits to \<open>D\<close> carry the numbered packets of the run and keepalives only.\<close>

definition numbers :: "libs \<Rightarrow> u16 \<Rightarrow> byte_vec list \<Rightarrow> byte_vec list \<Rightarrow> bool" where
  "numbers L a payloads sent \<longleftrightarrow>
     (\<forall>b \<in> set sent. keepalive_bytes L b \<or> (\<exists>n < length payloads. b = carrying L a 0 payloads n))"

lemma sender_numbers:
  assumes "serializes L" and "node_at t m" and "sane_run t turns" and "new_to b (cm_peer_list m)"
    and "reaches_only D b (cm_peer_list m)" and "announced_only L D b turns"
  shows "numbers L (own_peer_id m) (routed_to L b turns m) (sent_towards D (emitted L turns m))"
  using sender_emits [OF assms(1-3,5,6)] count_to_new [OF assms(4)]
  by (fastforce simp: numbers_def sent_towards_def)

text \<open>Everything that arrives in the name of \<open>a\<close> is one of its numbered packets.\<close>

lemma numbers_genuine:
  assumes "serializes L" and "decodes L" and "numbers L a payloads sent" and "b \<in> set sent"
    and "bincode_deserialize L b = Some (Packet_Msg p)"
  shows "genuine a payloads p"
  using assms(3-5) decodes_keepalive [OF assms(2)] decodes_carrying [OF assms(1,2)]
  by (fastforce simp: numbers_def genuine_def)

lemma life_genuine:
  assumes "serializes L" and "decodes L" and "carries L a sent turns" and "numbers L a payloads sent"
  shows "list_all (arrives_only (genuine a payloads)) (life_of L a turns m)"
    and "list_all (\<lambda>(p, ts). genuine a payloads p) (arrivals L a turns m)"
proof -
  have raw: "list_all (\<lambda>(p, ts). genuine a payloads p) (arrivals_in L e a raw m)"
    if "(e, Raw_Udp (Some raw)) \<in> set turns" for e raw m
  proof -
    have "raw_bytes raw \<in> set sent" if "bincode_deserialize L (raw_bytes raw) = Some (Packet_Msg p)" "peer_id p = a" for p
      using assms(3) that \<open>(e, Raw_Udp (Some raw)) \<in> set turns\<close> by (fastforce simp: carries_def list_all_iff)
    then show ?thesis
      using numbers_genuine [OF assms(1,2,4)]
      by (auto simp: arrivals_in_def split: option.splits messages.splits)
  qed
  show "list_all (arrives_only (genuine a payloads)) (life_of L a turns m)"
  proof (rule over_run_list_all)
    fix e ev m assume turn: "(e, ev) \<in> set turns"
    show "list_all (arrives_only (genuine a payloads)) (peer_events L a e ev m)"
      using raw [of e _ m] turn tick_events_expire [of _ e a m]
      by (cases ev) (fastforce simp: peer_events_def list_all_iff split: option.split)+
  qed
  show "list_all (\<lambda>(p, ts). genuine a payloads p) (arrivals L a turns m)"
    using raw by (intro over_run_list_all) (auto simp: turn_arrivals_def split: cm_event.split option.split)
qed

text \<open>Picking entries by increasing position gives a subsequence.\<close>

lemma subseq_nth:
  "sorted_wrt (<) ns \<Longrightarrow> \<forall>n \<in> set ns. n < length xs \<Longrightarrow> subseq (map ((!) xs) ns) xs"
proof (induction xs arbitrary: ns rule: rev_induct)
  case (snoc x xs)
  show ?case
  proof (cases ns rule: rev_cases)
    case (snoc ks k)
    have less: "\<forall>j \<in> set ks. j < k" and ks: "sorted_wrt (<) ks"
      using snoc.prems(1) by (simp_all add: snoc sorted_wrt_append)
    have low: "subseq (map ((!) (xs @ [x])) js) xs" if "sorted_wrt (<) js" and "\<forall>j \<in> set js. j < length xs" for js
    proof -
      have "map ((!) (xs @ [x])) js = map ((!) xs) js" using that(2) by (simp add: nth_append)
      with snoc.IH [OF that] show ?thesis by (simp only:)
    qed
    show ?thesis
    proof (cases "k < length xs")
      case True
      with less have "\<forall>j \<in> set ns. j < length xs" by (auto simp: snoc)
      from low [OF snoc.prems(1) this] show ?thesis by (rule list_emb_prefix)
    next
      case False
      then have "k = length xs" using snoc.prems(2) by (simp add: snoc)
      with less low [OF ks] show ?thesis
        by (simp add: snoc list_emb_append_mono)
    qed
  qed simp
qed simp

lemma increasing_genuine_subseq:
  assumes "sorted_wrt (<) (map seq ps)" and "\<And>p. p \<in> set ps \<Longrightarrow> genuine a payloads p" and "length payloads < 2 ^ 64"
  shows "subseq (map bytes ps) payloads"
proof -
  let ?ns = "map (\<lambda>p. unat (seq p)) ps"
  have "sorted_wrt (<) ?ns" using assms(1) by (simp add: sorted_wrt_map word_less_nat_alt)
  then have "subseq (map ((!) payloads) ?ns) payloads"
    using genuineD(1) [OF assms(2) assms(3)] by (intro subseq_nth) auto
  also have "map ((!) payloads) ?ns = map bytes ps"
    using genuineD(2) [OF assms(2) assms(3)] by simp
  finally show ?thesis .
qed

text \<open>If every number has arrived, the in-order prefix of the arrivals is everything.\<close>

lemma in_order_prefix_complete:
  assumes "\<And>p. p \<in> set ps \<Longrightarrow> genuine a payloads p" and "length payloads < 2 ^ 64"
    and "\<And>n. n < length payloads \<Longrightarrow> numbered a 0 payloads n \<in> set ps"
  shows "in_order_prefix ps = map (numbered a 0 payloads) [0..<length payloads]"
proof -
  have "first_copy ps n = Some (numbered a 0 payloads n)" if n: "n < length payloads" for n
  proof -
    have "n \<in> (\<lambda>p. unat (seq p)) ` set ps"
      using assms(3) [OF n] n assms(2) by (force simp: numbered_def unat_of_nat_u64)
    then obtain p where p: "first_copy ps n = Some p"
      using first_copy_None_iff [of ps n] by auto
    then have "p \<in> set ps" and "unat (seq p) = n"
      by (auto simp: first_copy_def find_Some_iff)
    with genuineD(3) [OF assms(1) assms(2)] p show ?thesis by metis
  qed
  moreover have "first_copy ps (length payloads) = None"
    using genuineD(1) [OF assms(1) assms(2)] by (fastforce simp: first_copy_None_iff)
  ultimately have "is_run (first_copy ps) 0 (map (numbered a 0 payloads) [0..<length payloads])"
    by (simp add: is_run_def)
  with is_run_in_order_prefix show ?thesis by (rule is_run_unique)
qed

lemma tunnel_subseq:
  assumes "serializes L" and "decodes L" and "node_at u m" and "sane_run u turns" and "new_to a (cm_peer_list m)"
    and "carries L a sent turns" and "numbers L a payloads sent" and "length payloads < 2 ^ 64"
  shows "subseq (map bytes (filter (\<lambda>p. peer_id p = a) (delivered L turns m))) payloads"
proof -
  obtain now where live: "filter (\<lambda>p. peer_id p = a) (delivered L turns m) =
      fst (seq_run (life_of L a turns m) (sequencer_new (from_millis 3) now))"
    using new_receiver_lives [OF assms(1,3-5)] by blast
  let ?s = "sequencer_new (from_millis 3) now" and ?life = "life_of L a turns m"
  have gen: "list_all (arrives_only (genuine a payloads)) ?life"
    using assms(1,2,6,7) by (rule life_genuine)
  have "list_all event_below_top ?life" using gen assms(8) by (rule genuine_below_top)
  moreover have empty: "seq_inv ?s \<and> below_top ?s"
    using seq_inv_new by (simp add: below_top_def sequencer_new_def bt_new.rep_eq)
  ultimately have sorted: "sorted_wrt (<) (map seq (fst (seq_run ?life ?s)))"
    using sq.run_sorted [of ?s ?life] by (simp add: sorted_wrt_map word_less_nat_alt)
  have none: "genuine a payloads p" if "bt_lookup (packet_queue ?s) k = Some p" for k p
    using that by (simp add: sequencer_new_def bt.lookup_empty)
  have "genuine a payloads p" if "p \<in> set (fst (seq_run ?life ?s))" for p
    using conjunct1 [OF empty] none gen that by (rule seq_run_passes)
  with sorted show ?thesis
    unfolding live using assms(8) by (rule increasing_genuine_subseq)
qed

text \<open>What a node hears: the datagrams that arrive while it knows the peer \<open>a\<close>. The network is
  complete if of every packet that was sent at least one copy is heard.\<close>

definition turn_heard :: "u16 \<Rightarrow> env \<Rightarrow> cm_event \<Rightarrow> connection_manager \<Rightarrow> byte_vec list" where
  "turn_heard a e ev m = (case ev of
     Raw_Udp (Some raw) \<Rightarrow> if Option.is_none (get_peer_sequencer a (cm_peer_list m)) then [] else [raw_bytes raw]
   | _ \<Rightarrow> [])"

abbreviation heard :: "libs \<Rightarrow> u16 \<Rightarrow> turns \<Rightarrow> connection_manager \<Rightarrow> byte_vec list" where
  "heard L a \<equiv> over_run L (turn_heard a)"

definition complete :: "libs \<Rightarrow> byte_vec list \<Rightarrow> byte_vec list \<Rightarrow> bool" where
  "complete L sent arrived = list_all (\<lambda>b. case bincode_deserialize L b of
     Some (Packet_Msg p) \<Rightarrow> b \<in> set arrived | _ \<Rightarrow> True) sent"

lemma heard_arrives:
  assumes "b \<in> set (heard L (peer_id p) turns m)" and "bincode_deserialize L b = Some (Packet_Msg p)"
  shows "p \<in> fst ` set (arrivals L (peer_id p) turns m)"
  using assms
proof (induction L "turn_heard (peer_id p)" turns m rule: over_run.induct)
  case (2 L e ev turns m)
  have "p \<in> fst ` set (turn_arrivals L (peer_id p) e ev m)" if hd: "b \<in> set (turn_heard (peer_id p) e ev m)"
  proof -
    obtain raw where "ev = Raw_Udp (Some raw)" "raw_bytes raw = b"
        "\<not> Option.is_none (get_peer_sequencer (peer_id p) (cm_peer_list m))"
      using hd by (auto simp: turn_heard_def split: cm_event.split_asm option.split_asm if_split_asm)
    with 2(3) have "turn_arrivals L (peer_id p) e ev m = [(p, clk e 1)]"
      by (simp add: turn_arrivals_def arrivals_in_def)
    then show ?thesis by simp
  qed
  with 2 show ?case by auto
qed simp

lemma length_over_run:
  "(\<And>e ev m. length (f e ev m) \<le> 1) \<Longrightarrow> length (over_run L f turns m) \<le> length turns"
proof (induction L f turns m rule: over_run.induct)
  case (2 L f e ev turns m)
  from 2(1) [OF 2(2)] 2(2) [of e ev m] show ?case by simp
qed simp

lemma tunnel_complete:
  assumes "serializes L" and "decodes L" and "node_at u m" and "sane_run u turns" and "new_to a (cm_peer_list m)"
    and "carries L a sent turns" and "numbers L a payloads sent" and "length payloads < 2 ^ 64"
    and "always L (patient a) turns m" and "length turns < 2 ^ 64" and "complete L sent (heard L a turns m)"
    and "\<And>n. n < length payloads \<Longrightarrow> carrying L a 0 payloads n \<in> set sent"
  shows "map bytes (filter (\<lambda>p. peer_id p = a) (delivered L turns m)) = payloads"
proof -
  let ?as = "arrivals L a turns m"
  obtain now where live: "filter (\<lambda>p. peer_id p = a) (delivered L turns m) =
      fst (seq_run (map arrive ?as) (sequencer_new (from_millis 3) now))"
    using new_receiver_lives [OF assms(1,3-5)] assms(9) by blast
  have "length (turn_arrivals L a e ev m) \<le> 1" for e ev m
    by (auto simp: turn_arrivals_def arrivals_in_def split: cm_event.split option.split messages.split)
  then have "length ?as < 2 ^ 64" using le_less_trans [OF length_over_run assms(10)] by blast
  then have run: "filter (\<lambda>p. peer_id p = a) (delivered L turns m) = in_order_prefix (map fst ?as)"
    unfolding live using seq_run_arrivals by blast
  have "genuine a payloads p" if "p \<in> set (map fst ?as)" for p
    using that life_genuine(2) [OF assms(1,2,6,7), of m] by (auto simp: list_all_iff)
  moreover have "numbered a 0 payloads n \<in> set (map fst ?as)" if n: "n < length payloads" for n
  proof -
    note dec = decodes_carrying [OF assms(1,2), of a 0 payloads n]
    have "carrying L a 0 payloads n \<in> set (heard L a turns m)"
      using assms(11) assms(12) [OF n] dec by (force simp: complete_def list_all_iff)
    with heard_arrives [of _ L "numbered a 0 payloads n" turns m] dec show ?thesis by (simp add: numbered_def)
  qed
  ultimately have "in_order_prefix (map fst ?as) = map (numbered a 0 payloads) [0..<length payloads]"
    using assms(8) by (intro in_order_prefix_complete)
  then show ?thesis by (simp add: run numbered_def comp_def map_nth)
qed

lemma decodes_demo: "decodes demo_libs"
  by (simp add: decodes_def demo_libs_def)

end
