(* ===== verification/Remote.thy ===== *)
theory Remote
  imports Messages
begin

text \<open>
  \<open>remote.rs\<close>: the transports that carry tunnel datagrams. A remote writes datagrams to and reads
  them from one UDP socket; the \<open>Lz4\<close> variant compresses what it writes and decompresses what it
  reads. The trait \<open>AsyncRemote\<close> is a locale, interpreted on both variants; a boxed trait object is
  a value of \<open>dyn_remote\<close>.

  The socket is what it has put on the wire, with the datagrams its sink (a \<open>SplitSink\<close> over
  \<open>UdpFramed\<close>) has taken and not yet sent. What the asynchronous calls resolve to (the result of a
  send, the next item of the input stream) is an argument, and so are the two functions of
  \<open>lz4_flex\<close> and the calls to the operating system that make a socket.
\<close>

section \<open>Sockets\<close>

text \<open>\<open>std::io::ErrorKind\<close>, as far as the program tells the kinds apart.\<close>

datatype error_kind = Network_Unreachable | Not_Found | Addr_Not_Available | Other_Kind

datatype stream_item = Received byte_vec socket_addr | Stream_Error error_kind

record udp_socket =
  bound_device :: "string option"
  bound_address :: socket_addr
  wire :: "(byte_vec \<times> socket_addr) list"
  unsent :: "(byte_vec \<times> socket_addr) list"

text \<open>What the operating system answers: \<open>pnet_datalink::interfaces\<close> and the calls on a
  \<open>socket2::Socket\<close>.\<close>

datatype bind_device_error = ENODEV | Other_Errno

record network_interface =
  iface_name :: string
  ips :: "ip_addr list"

record os =
  socket_new_ok :: bool
  bind_device :: "string \<Rightarrow> bind_device_error option"
  interfaces :: "network_interface list"
  bind_ok :: "socket_addr \<Rightarrow> bool"
  set_nonblocking_ok :: bool
  from_std_ok :: bool

primrec is_ipv4 :: "ip_addr \<Rightarrow> bool" where
  "is_ipv4 (V4 a) = True"
| "is_ipv4 (V6 a) = False"

definition interface_to_ipaddr :: "os \<Rightarrow> string \<Rightarrow> error_kind + ipv4_addr" where
  "interface_to_ipaddr sys interface =
     (case find (\<lambda>ifc. iface_name ifc = interface) (interfaces sys) of
        None \<Rightarrow> Inl Not_Found
      | Some ifc \<Rightarrow>
          (case find is_ipv4 (ips ifc) of
             None \<Rightarrow> Inl Addr_Not_Available
           | Some (V4 a) \<Rightarrow> Inr a
           | Some (V6 a) \<Rightarrow> Inl Addr_Not_Available))"

definition make_socket ::
    "os \<Rightarrow> string \<Rightarrow> ipv4_addr option \<Rightarrow> u16 \<Rightarrow> bool \<Rightarrow> panic + udp_socket" where
  "make_socket sys interface local_address local_port bind_to_dev =
     (if \<not> socket_new_ok sys then Inl (Unwrap_Err ''Socket::new'')
      else if bind_to_dev \<and> bind_device sys interface = Some ENODEV
        then Inl (Explicit_Panic ''error binding to device'')
      else if bind_to_dev \<and> bind_device sys interface \<noteq> None
        then Inl (Explicit_Panic ''unexpected error binding device'')
      else
        case (case local_address of
                Some a \<Rightarrow> Inr a
              | None \<Rightarrow> (case interface_to_ipaddr sys interface of
                  Inl e \<Rightarrow> Inl (Unwrap_Err ''interface_to_ipaddr'')
                | Inr a \<Rightarrow> Inr a)) of
          Inl p \<Rightarrow> Inl p
        | Inr a \<Rightarrow>
            let address = SocketV4 a local_port
            in if \<not> bind_ok sys address then Inl (Unwrap_Err ''bind'')
               else if \<not> set_nonblocking_ok sys then Inl (Unwrap_Err ''set_nonblocking'')
               else if \<not> from_std_ok sys then Inl (Unwrap_Err ''from_std'')
               else Inr \<lparr>bound_device = (if bind_to_dev then Some interface else None),
                         bound_address = address, wire = [], unsent = []\<rparr>)"

section \<open>The remotes\<close>

record udp_remote =
  interface :: string
  socket :: udp_socket

record udp_lz4_remote =
  inner_udp_remote :: udp_remote

text \<open>
  What \<open>output_stream.send\<close> resolves to. \<open>SinkExt::send\<close> succeeds once everything the sink has taken is
  flushed. Where it fails, the documentation leaves open whether the sink has taken the new datagram
  and how many of those it holds went out before the error, so both are part of the result; a sink
  sends what it has taken in order and once.
\<close>

datatype send_result = Flushed | Failed error_kind bool nat

definition sink_send :: "send_result \<Rightarrow> byte_vec \<times> socket_addr \<Rightarrow> udp_socket \<Rightarrow> udp_socket" where
  "sink_send res d s =
     (case res of
        Flushed \<Rightarrow> s\<lparr>wire := wire s @ unsent s @ [d], unsent := []\<rparr>
      | Failed k taken n \<Rightarrow>
          let held = unsent s @ (if taken then [d] else [])
          in s\<lparr>wire := wire s @ take n held, unsent := drop n held\<rparr>)"

definition output_send ::
    "send_result \<Rightarrow> byte_vec \<Rightarrow> socket_addr \<Rightarrow> udp_remote \<Rightarrow> udp_remote outcome" where
  "output_send res buffer dest r =
     (let r1 = r\<lparr>socket := sink_send res (buffer, dest) (socket r)\<rparr>
      in case res of
           Flushed \<Rightarrow> Running r1
         | Failed Network_Unreachable _ _ \<Rightarrow> Running r1
         | Failed _ _ _ \<Rightarrow> Panicked (Explicit_Panic ''Encountered unhandled problem when sending'') r1)"

definition udp_write ::
    "send_result \<Rightarrow> byte_vec \<Rightarrow> socket_addr \<Rightarrow> udp_remote \<Rightarrow> udp_remote outcome" where
  "udp_write res buffer dest r = output_send res buffer dest r"

definition udp_read :: "stream_item option \<Rightarrow> udp_remote \<Rightarrow> panic + incoming_unparsed_packet option" where
  "udp_read item r =
     (case unwrap ''input_stream.next'' item of
        Inl p \<Rightarrow> Inl p
      | Inr (Received received_bytes adder) \<Rightarrow>
          Inr (Some \<lparr>receiver_interface = interface r, received_from = adder, raw_bytes = received_bytes\<rparr>)
      | Inr (Stream_Error e) \<Rightarrow> Inr None)"

definition udp_get_interface :: "udp_remote \<Rightarrow> string" where
  "udp_get_interface r = interface r"

definition udp_new :: "os \<Rightarrow> string \<Rightarrow> ipv4_addr option \<Rightarrow> u16 \<Rightarrow> bool \<Rightarrow> panic + udp_remote" where
  "udp_new sys ifc addr port bind_dev =
     (case make_socket sys ifc addr port bind_dev of
        Inl p \<Rightarrow> Inl p
      | Inr s \<Rightarrow> Inr \<lparr>interface = ifc, socket = s\<rparr>)"

record lz4 =
  compress_prepend_size :: "byte_vec \<Rightarrow> byte_vec"
  decompress_size_prepended :: "byte_vec \<Rightarrow> byte_vec option"

definition lz4_write ::
    "lz4 \<Rightarrow> send_result \<Rightarrow> byte_vec \<Rightarrow> socket_addr \<Rightarrow> udp_lz4_remote \<Rightarrow> udp_lz4_remote outcome" where
  "lz4_write z res buffer dest r =
     and_then (output_send res (compress_prepend_size z buffer) dest (inner_udp_remote r))
       (\<lambda>u. Running (r\<lparr>inner_udp_remote := u\<rparr>)) (\<lambda>u. r\<lparr>inner_udp_remote := u\<rparr>)"

definition lz4_read ::
    "lz4 \<Rightarrow> stream_item option \<Rightarrow> udp_lz4_remote \<Rightarrow> panic + incoming_unparsed_packet option" where
  "lz4_read z item r =
     (case unwrap ''input_stream.next'' item of
        Inl p \<Rightarrow> Inl p
      | Inr (Received received_bytes adder) \<Rightarrow>
          (case decompress_size_prepended z received_bytes of
             None \<Rightarrow> Inl (Unwrap_Err ''decompress_size_prepended'')
           | Some uncompressed \<Rightarrow>
               Inr (Some \<lparr>receiver_interface = interface (inner_udp_remote r), received_from = adder,
                          raw_bytes = uncompressed\<rparr>))
      | Inr (Stream_Error e) \<Rightarrow> Inr None)"

definition lz4_get_interface :: "udp_lz4_remote \<Rightarrow> string" where
  "lz4_get_interface r = interface (inner_udp_remote r)"

definition lz4_new :: "os \<Rightarrow> string \<Rightarrow> ipv4_addr option \<Rightarrow> u16 \<Rightarrow> bool \<Rightarrow> panic + udp_lz4_remote" where
  "lz4_new sys ifc addr port bind_dev =
     (case make_socket sys ifc addr port bind_dev of
        Inl p \<Rightarrow> Inl p
      | Inr s \<Rightarrow> Inr \<lparr>inner_udp_remote = \<lparr>interface = ifc, socket = s\<rparr>\<rparr>)"

section \<open>\<open>Box<dyn AsyncRemote>\<close>\<close>

datatype dyn_remote = Udp_Remote udp_remote | Udp_Lz4_Remote udp_lz4_remote

definition remote_write ::
    "lz4 \<Rightarrow> send_result \<Rightarrow> byte_vec \<Rightarrow> socket_addr \<Rightarrow> dyn_remote \<Rightarrow> dyn_remote outcome" where
  "remote_write z res buffer dest r =
     (case r of
        Udp_Remote u \<Rightarrow> and_then (udp_write res buffer dest u) (\<lambda>u. Running (Udp_Remote u)) Udp_Remote
      | Udp_Lz4_Remote l \<Rightarrow>
          and_then (lz4_write z res buffer dest l) (\<lambda>l. Running (Udp_Lz4_Remote l)) Udp_Lz4_Remote)"

definition remote_read ::
    "lz4 \<Rightarrow> stream_item option \<Rightarrow> dyn_remote \<Rightarrow> panic + incoming_unparsed_packet option" where
  "remote_read z item r =
     (case r of Udp_Remote u \<Rightarrow> udp_read item u | Udp_Lz4_Remote l \<Rightarrow> lz4_read z item l)"

definition remote_get_interface :: "dyn_remote \<Rightarrow> string" where
  "remote_get_interface r =
     (case r of Udp_Remote u \<Rightarrow> udp_get_interface u | Udp_Lz4_Remote l \<Rightarrow> lz4_get_interface l)"

primrec remote_socket :: "dyn_remote \<Rightarrow> udp_socket" where
  "remote_socket (Udp_Remote u) = socket u"
| "remote_socket (Udp_Lz4_Remote l) = socket (inner_udp_remote l)"

lemmas remote_defs [mpconn_defs] =
  interface_to_ipaddr_def make_socket_def output_send_def udp_write_def udp_read_def
  udp_get_interface_def udp_new_def lz4_write_def lz4_read_def lz4_get_interface_def lz4_new_def
  remote_write_def remote_read_def remote_get_interface_def

section \<open>The contract of a remote\<close>

text \<open>Results a write survives, and whether the sink has taken the datagram.\<close>

fun survives_send :: "send_result \<Rightarrow> bool" where
  "survives_send Flushed = True"
| "survives_send (Failed k taken n) = (k = Network_Unreachable)"

fun takes_datagram :: "send_result \<Rightarrow> bool" where
  "takes_datagram Flushed = True"
| "takes_datagram (Failed k taken n) = taken"

text \<open>A datagram that the sink takes is the last of those that are on the wire or will be.\<close>

lemma sink_send_accounts:
  "wire (sink_send res d s) @ unsent (sink_send res d s) =
    wire s @ unsent s @ (if takes_datagram res then [d] else [])"
  by (cases res) (simp_all add: sink_send_def Let_def del: take_append drop_append)

lemma sink_send_Flushed [simp]: "unsent (sink_send Flushed d s) = []"
  by (simp add: sink_send_def)

lemma sink_send_wire: "\<exists>new. wire (sink_send res d s) = wire s @ new"
  by (cases res) (simp_all add: sink_send_def Let_def)

text \<open>
  What \<open>AsyncRemote\<close> promises: a write hands one encoded datagram to the sink of the socket, goes on
  where the network is unreachable and panics on any other error; a read decodes one datagram and
  labels it with the interface, and panics on what it cannot decode.
\<close>

locale async_remote =
  fixes wr :: "send_result \<Rightarrow> byte_vec \<Rightarrow> socket_addr \<Rightarrow> 'r \<Rightarrow> 'r outcome"
    and rd :: "stream_item option \<Rightarrow> 'r \<Rightarrow> panic + incoming_unparsed_packet option"
    and get_interface :: "'r \<Rightarrow> string"
    and sock :: "'r \<Rightarrow> udp_socket"
    and encode :: "'r \<Rightarrow> byte_vec \<Rightarrow> byte_vec"
    and decode :: "'r \<Rightarrow> byte_vec \<Rightarrow> byte_vec option"
  assumes write_runs: "is_running (wr res b d r) = survives_send res"
    and write_socket: "sock (final (wr res b d r)) = sink_send res (encode r b, d) (sock r)"
    and write_same: "get_interface (final (wr res b d r)) = get_interface r \<and>
      encode (final (wr res b d r)) = encode r \<and> decode (final (wr res b d r)) = decode r"
    and read_received: "rd (Some (Received w a)) r = (case decode r w of
      None \<Rightarrow> Inl (Unwrap_Err ''decompress_size_prepended'')
    | Some b \<Rightarrow> Inr (Some \<lparr>receiver_interface = get_interface r, received_from = a, raw_bytes = b\<rparr>))"
    and read_error: "rd (Some (Stream_Error k)) r = Inr None"
begin

lemma writeE:
  assumes "survives_send res"
  obtains r' where "wr res b d r = Running r'" and "sock r' = sink_send res (encode r b, d) (sock r)"
    and "get_interface r' = get_interface r" and "encode r' = encode r" and "decode r' = decode r"
proof (cases "wr res b d r")
  case (Running r')
  with write_socket [of res b d r] write_same [of res b d r] that show ?thesis by simp
next
  case (Panicked p r')
  with write_runs [of res b d r] assms show ?thesis by simp
qed

text \<open>Writing a list of datagrams, each with the result its send has.\<close>

definition write_all :: "(send_result \<times> byte_vec \<times> socket_addr) list \<Rightarrow> 'r \<Rightarrow> 'r outcome" where
  "write_all = for_each (\<lambda>(res, b, d). wr res b d)"

lemma wire_write_all:
  assumes "list_all (\<lambda>(res, b, d). survives_send res) ws"
  shows "is_running (write_all ws r) \<and>
    wire (sock (final (write_all ws r))) @ unsent (sock (final (write_all ws r))) =
      wire (sock r) @ unsent (sock r) @
      map (\<lambda>(res, b, d). (encode r b, d)) (filter (\<lambda>(res, b, d). takes_datagram res) ws)"
  using assms
proof (induction ws arbitrary: r)
  case (Cons w ws)
  obtain res b d where w: "w = (res, b, d)" by (cases w)
  with Cons.prems have "survives_send res" by simp
  then obtain r' where r': "wr res b d r = Running r'" "sock r' = sink_send res (encode r b, d) (sock r)"
    "encode r' = encode r" by (rule writeE)
  from Cons.IH [of r'] Cons.prems r' sink_send_accounts [of res "(encode r b, d)" "sock r"] show ?case
    by (simp add: write_all_def w)
qed (simp add: write_all_def)

lemma read_back:
  assumes "decode r (encode q b) = Some b"
  shows "rd (Some (Received (encode q b) a)) r =
    Inr (Some \<lparr>receiver_interface = get_interface r, received_from = a, raw_bytes = b\<rparr>)"
  using assms by (simp add: read_received)

end

interpretation udp: async_remote udp_write udp_read udp_get_interface socket "\<lambda>_ b. b" "\<lambda>_ b. Some b"
  by unfold_locales
    (auto simp: remote_defs Let_def split: option.splits send_result.splits error_kind.splits)

interpretation udplz4: async_remote "lz4_write z" "lz4_read z" lz4_get_interface
    "\<lambda>r. socket (inner_udp_remote r)" "\<lambda>_. compress_prepend_size z" "\<lambda>_. decompress_size_prepended z" for z
  by unfold_locales
    (auto simp: remote_defs Let_def split: option.splits send_result.splits error_kind.splits)

text \<open>The trait object dispatches to either.\<close>

primrec dyn_encode :: "lz4 \<Rightarrow> dyn_remote \<Rightarrow> byte_vec \<Rightarrow> byte_vec" where
  "dyn_encode z (Udp_Remote u) = (\<lambda>b. b)"
| "dyn_encode z (Udp_Lz4_Remote l) = compress_prepend_size z"

primrec dyn_decode :: "lz4 \<Rightarrow> dyn_remote \<Rightarrow> byte_vec \<Rightarrow> byte_vec option" where
  "dyn_decode z (Udp_Remote u) = Some"
| "dyn_decode z (Udp_Lz4_Remote l) = decompress_size_prepended z"

interpretation dyn: async_remote "remote_write z" "remote_read z" remote_get_interface remote_socket
    "dyn_encode z" "dyn_decode z" for z
proof (unfold_locales, goal_cases)
  case (1 res b d r)
  then show ?case
    by (cases r) (auto simp: remote_defs Let_def split: send_result.splits error_kind.splits)
next
  case (2 res b d r)
  then show ?case
    by (cases r) (auto simp: remote_defs Let_def split: send_result.splits error_kind.splits)
next
  case (3 res b d r)
  then show ?case
    by (cases r) (auto simp: remote_defs Let_def split: send_result.splits error_kind.splits)
next
  case (4 w a r)
  then show ?case by (cases r) (simp_all add: remote_defs split: option.splits)
next
  case (5 k r)
  then show ?case by (cases r) (simp_all add: remote_defs)
qed

end
