(* ===== verification/Remote_Manager.thy ===== *)
theory Remote_Manager
  imports Remote
begin

text \<open>
  \<open>remote_manager.rs\<close>: one task per configured remote. A task sends every datagram of the broadcast
  channel over its remote and hands every datagram its remote receives to the connection manager.
\<close>

section \<open>Making remotes\<close>

definition make_remote :: "os \<Rightarrow> remote_types \<Rightarrow> panic + dyn_remote" where
  "make_remote sys dev =
     (case dev of
        UDP ifc addr port bind_dev \<Rightarrow>
          (case bind_dev of
             None \<Rightarrow> map_sum id Udp_Remote (udp_new sys ifc addr port True)
           | Some b \<Rightarrow> map_sum id Udp_Remote (udp_new sys ifc addr port b))
      | UDPLz4 ifc addr port bind_dev \<Rightarrow>
          (case bind_dev of
             None \<Rightarrow> map_sum id Udp_Lz4_Remote (lz4_new sys ifc addr port True)
           | Some b \<Rightarrow> map_sum id Udp_Lz4_Remote (lz4_new sys ifc addr port b)))"

section \<open>The task of a remote\<close>

text \<open>\<open>to_manager\<close> is what the task has sent to the connection manager, oldest first.\<close>

record remote_task =
  task_remote :: dyn_remote
  to_manager :: "incoming_unparsed_packet list"

text \<open>What the branches of \<open>select!\<close> resolve to: a datagram from the broadcast channel (or an error
  of it) and how sending it ends; an item of the remote's input stream and whether the connection
  manager takes what was read.\<close>

datatype recv_error = Lagged u64 | Closed

datatype remote_event =
    Outgoing "recv_error + outgoing_udp_packet" send_result
  | Incoming "stream_item option" bool

definition remote_task_turn :: "lz4 \<Rightarrow> remote_event \<Rightarrow> remote_task \<Rightarrow> remote_task outcome" where
  "remote_task_turn z ev t =
     (case ev of
        Outgoing outgoing res \<Rightarrow>
          (case outgoing of
             Inr out \<Rightarrow>
               and_then (remote_write z res (packet_bytes out) (destination out) (task_remote t))
                 (\<lambda>r. Running (t\<lparr>task_remote := r\<rparr>)) (\<lambda>r. t\<lparr>task_remote := r\<rparr>)
           | Inl (Lagged lagg) \<Rightarrow> Running t
           | Inl Closed \<Rightarrow>
               Panicked (Explicit_Panic ''RemoteManager: Broadcast channel closed unexpectedly!'') t)
      | Incoming item accepted \<Rightarrow>
          (case remote_read z item (task_remote t) of
             Inl p \<Rightarrow> Panicked p t
           | Inr None \<Rightarrow> Panicked (Unwrap_None ''incoming'') t
           | Inr (Some pkt) \<Rightarrow>
               if accepted then Running (t\<lparr>to_manager := to_manager t @ [pkt]\<rparr>)
               else Panicked (Unwrap_Err ''mpsc_channel.send'') t))"

definition remote_task_run :: "lz4 \<Rightarrow> remote_event list \<Rightarrow> remote_task \<Rightarrow> remote_task outcome" where
  "remote_task_run z evs t = for_each (remote_task_turn z) evs t"

fun spawn_remotes :: "os \<Rightarrow> remote_types list \<Rightarrow> panic + remote_task list" where
  "spawn_remotes sys [] = Inr []"
| "spawn_remotes sys (dev # devs) =
     (case make_remote sys dev of
        Inl p \<Rightarrow> Inl p
      | Inr r \<Rightarrow> (case spawn_remotes sys devs of
          Inl p \<Rightarrow> Inl p
        | Inr ts \<Rightarrow> Inr (\<lparr>task_remote = r, to_manager = []\<rparr> # ts)))"

definition remote_manager_new :: "os \<Rightarrow> settings_file \<Rightarrow> panic + remote_task list" where
  "remote_manager_new sys settings = spawn_remotes sys (remotes settings)"

definition remote_manager_run :: "task_state list \<Rightarrow> joined" where
  "remote_manager_run remote_tasks = await_tasks remote_tasks"

lemmas remote_manager_defs [mpconn_defs] =
  make_remote_def remote_task_turn_def remote_task_run_def remote_manager_new_def remote_manager_run_def

section \<open>Properties\<close>

text \<open>Both ends of a connection use the same kind of remote.\<close>

fun same_kind :: "dyn_remote \<Rightarrow> dyn_remote \<Rightarrow> bool" where
  "same_kind (Udp_Remote u) (Udp_Remote v) = True"
| "same_kind (Udp_Lz4_Remote u) (Udp_Lz4_Remote v) = True"
| "same_kind _ _ = False"

text \<open>What \<open>lz4_flex\<close> compresses, it decompresses.\<close>

definition lossless :: "lz4 \<Rightarrow> bool" where
  "lossless z \<longleftrightarrow> (\<forall>b. decompress_size_prepended z (compress_prepend_size z b) = Some b)"

lemma dyn_decode_encode:
  "lossless z \<Longrightarrow> same_kind r q \<Longrightarrow> dyn_decode z r (dyn_encode z q b) = Some b"
  by (cases "(r, q)" rule: same_kind.cases) (simp_all add: lossless_def)

text \<open>A compressor for the examples: a marker before the bytes.\<close>

definition demo_lz4 :: lz4 where
  "demo_lz4 = \<lparr>compress_prepend_size = (#) 42,
     decompress_size_prepended = (\<lambda>w. case w of [] \<Rightarrow> None | x # b \<Rightarrow> if x = 42 then Some b else None)\<rparr>"

lemma lossless_demo: "lossless demo_lz4"
  by (simp add: lossless_def demo_lz4_def)

definition demo_os :: os where
  "demo_os = \<lparr>socket_new_ok = True, bind_device = (\<lambda>d. if d = ''eth0'' then None else Some ENODEV),
     interfaces = [\<lparr>iface_name = ''lo'', ips = [V6 1, V4 0x7F000001]\<rparr>, \<lparr>iface_name = ''eth0'', ips = [V6 2, V4 0x0A0C0001]\<rparr>],
     bind_ok = (\<lambda>_. True), set_nonblocking_ok = True, from_std_ok = True\<rparr>"

definition demo_remote :: "string \<Rightarrow> dyn_remote" where
  "demo_remote ifc = Udp_Lz4_Remote \<lparr>inner_udp_remote = \<lparr>interface = ifc,
     socket = \<lparr>bound_device = None, bound_address = SocketV4 1 2, wire = [], unsent = []\<rparr>\<rparr>\<rparr>"

text \<open>C29. A remote carries datagrams unchanged: whatever is written to one remote, and gets onto the
  wire, is read from the wire by a remote of the same kind as the same bytes, labelled with the
  interface of the reading remote and the address it came from.\<close>

theorem remote_round_trip:
  assumes "lossless z" and "same_kind r q"
  shows "\<exists>q' w. remote_write z Flushed b d q = Running q' \<and>
    wire (remote_socket q') = wire (remote_socket q) @ unsent (remote_socket q) @ [(w, d)] \<and>
    remote_read z (Some (Received w a)) r =
      Inr (Some \<lparr>receiver_interface = remote_get_interface r, received_from = a, raw_bytes = b\<rparr>)"
proof -
  have "survives_send Flushed" by simp
  then obtain q' where "remote_write z Flushed b d q = Running q'"
    and "remote_socket q' = sink_send Flushed (dyn_encode z q b, d) (remote_socket q)"
    by (rule dyn.writeE)
  with dyn.read_back [OF dyn_decode_encode [OF assms]] show ?thesis by (auto simp: sink_send_def)
qed

theorem remote_round_trip_witness:
  "\<exists>q' w. remote_write demo_lz4 Flushed [1, 2] (SocketV4 3 4) (demo_remote ''wlan0'') = Running q' \<and>
     wire (remote_socket q') = [(w, SocketV4 3 4)] \<and>
     remote_read demo_lz4 (Some (Received w (SocketV4 5 6))) (demo_remote ''eth0'') =
       Inr (Some \<lparr>receiver_interface = ''eth0'', received_from = SocketV4 5 6, raw_bytes = [1, 2]\<rparr>)"
proof -
  have "same_kind (demo_remote ''eth0'') (demo_remote ''wlan0'')" by code_simp
  moreover have "remote_get_interface (demo_remote ''eth0'') = ''eth0''" by code_simp
  moreover have "wire (remote_socket (demo_remote ''wlan0'')) = []" "unsent (remote_socket (demo_remote ''wlan0'')) = []"
    by code_simp+
  ultimately show ?thesis
    using remote_round_trip [OF lossless_demo, of "demo_remote ''eth0''" "demo_remote ''wlan0''" "[1, 2]"
        "SocketV4 3 4" "SocketV4 5 6"] by simp
qed

text \<open>Events that a task survives, and what it puts on the wire and hands to the manager for them.\<close>

fun survivable :: "lz4 \<Rightarrow> dyn_remote \<Rightarrow> remote_event \<Rightarrow> bool" where
  "survivable z r (Outgoing (Inr out) res) = survives_send res"
| "survivable z r (Outgoing (Inl (Lagged n)) res) = True"
| "survivable z r (Outgoing (Inl Closed) res) = False"
| "survivable z r (Incoming (Some (Received w a)) accepted) = (accepted \<and> dyn_decode z r w \<noteq> None)"
| "survivable z r (Incoming _ accepted) = False"

fun wire_output :: "lz4 \<Rightarrow> dyn_remote \<Rightarrow> remote_event \<Rightarrow> (byte_vec \<times> socket_addr) list" where
  "wire_output z r (Outgoing (Inr out) res) =
     (if takes_datagram res then [(dyn_encode z r (packet_bytes out), destination out)] else [])"
| "wire_output z r _ = []"

fun manager_input :: "lz4 \<Rightarrow> dyn_remote \<Rightarrow> remote_event \<Rightarrow> incoming_unparsed_packet list" where
  "manager_input z r (Incoming (Some (Received w a)) accepted) =
     (case dyn_decode z r w of
        None \<Rightarrow> []
      | Some b \<Rightarrow> [\<lparr>receiver_interface = remote_get_interface r, received_from = a, raw_bytes = b\<rparr>])"
| "manager_input z r _ = []"

text \<open>What is on the wire of a task's socket, followed by what its sink still holds.\<close>

definition outgoing_line :: "remote_task \<Rightarrow> (byte_vec \<times> socket_addr) list" where
  "outgoing_line t = wire (remote_socket (task_remote t)) @ unsent (remote_socket (task_remote t))"

definition task_after :: "lz4 \<Rightarrow> remote_event list \<Rightarrow> remote_task \<Rightarrow> remote_task \<Rightarrow> bool" where
  "task_after z evs t t' \<longleftrightarrow>
     outgoing_line t' = outgoing_line t @ concat (map (wire_output z (task_remote t)) evs) \<and>
     to_manager t' = to_manager t @ concat (map (manager_input z (task_remote t)) evs) \<and>
     remote_get_interface (task_remote t') = remote_get_interface (task_remote t) \<and>
     dyn_encode z (task_remote t') = dyn_encode z (task_remote t) \<and>
     dyn_decode z (task_remote t') = dyn_decode z (task_remote t)"

lemma events_depend_on:
  assumes "remote_get_interface r' = remote_get_interface r" and "dyn_encode z r' = dyn_encode z r"
    and "dyn_decode z r' = dyn_decode z r"
  shows "survivable z r' ev = survivable z r ev" and "wire_output z r' ev = wire_output z r ev"
    and "manager_input z r' ev = manager_input z r ev"
proof -
  show "survivable z r' ev = survivable z r ev"
    using assms by (cases "(z, r, ev)" rule: survivable.cases) simp_all
  show "wire_output z r' ev = wire_output z r ev"
    using assms by (cases "(z, r, ev)" rule: wire_output.cases) simp_all
  show "manager_input z r' ev = manager_input z r ev"
    using assms by (cases "(z, r, ev)" rule: manager_input.cases) (simp_all split: option.splits)
qed

lemma remote_task_turn_survives:
  assumes "survivable z (task_remote t) ev"
  shows "\<exists>t'. remote_task_turn z ev t = Running t' \<and> task_after z [ev] t t'"
  using assms
proof (cases "(z, task_remote t, ev)" rule: survivable.cases)
  case (1 z' r out res)
  then have "survives_send res" using assms by simp
  then obtain r' where r': "remote_write z res (packet_bytes out) (destination out) (task_remote t) = Running r'"
    "remote_socket r' = sink_send res (dyn_encode z (task_remote t) (packet_bytes out), destination out)
      (remote_socket (task_remote t))"
    "remote_get_interface r' = remote_get_interface (task_remote t)"
    "dyn_encode z r' = dyn_encode z (task_remote t)" "dyn_decode z r' = dyn_decode z (task_remote t)"
    by (rule dyn.writeE)
  with 1 show ?thesis
    using sink_send_accounts [of res "(dyn_encode z (task_remote t) (packet_bytes out), destination out)"
        "remote_socket (task_remote t)"]
    by (simp add: remote_task_turn_def task_after_def outgoing_line_def)
next
  case (4 z' r w a accepted)
  then obtain b where "dyn_decode z (task_remote t) w = Some b" and accepted using assms by auto
  with 4 show ?thesis by (auto simp: remote_task_turn_def dyn.read_received task_after_def outgoing_line_def)
qed (simp_all add: remote_task_turn_def task_after_def)

lemma flushed_turn:
  assumes "remote_task_turn z (Outgoing (Inr out) Flushed) t = Running t'"
  shows "unsent (remote_socket (task_remote t')) = []"
proof -
  have "survives_send Flushed" by simp
  then obtain r' where "remote_write z Flushed (packet_bytes out) (destination out) (task_remote t) = Running r'"
    and "remote_socket r' = sink_send Flushed (dyn_encode z (task_remote t) (packet_bytes out), destination out)
      (remote_socket (task_remote t))"
    by (rule dyn.writeE)
  with assms show ?thesis by (auto simp: remote_task_turn_def)
qed

lemma chain_nil: "chain r (for_each body []) = r"
  by (cases r) simp_all

text \<open>C28. A remote's task forwards everything in both directions, in order, for as long as nothing makes
  it panic: every datagram of the broadcast channel that the sink of the socket takes is, encoded and
  once, on the wire or the next to go there, and after a send that succeeds none is left behind;
  every datagram received goes to the connection manager decoded once, labelled with the interface;
  an unreachable network and a lagging receiver lose datagrams but do not stop it.\<close>

theorem remote_task_forwards:
  assumes "list_all (survivable z (task_remote t)) evs"
  shows "\<exists>t'. remote_task_run z evs t = Running t' \<and>
    wire (remote_socket (task_remote t')) @ unsent (remote_socket (task_remote t')) =
      wire (remote_socket (task_remote t)) @ unsent (remote_socket (task_remote t)) @
        concat (map (wire_output z (task_remote t)) evs) \<and>
    (\<forall>evs0 out. evs = evs0 @ [Outgoing (Inr out) Flushed] \<longrightarrow> unsent (remote_socket (task_remote t')) = []) \<and>
    to_manager t' = to_manager t @ concat (map (manager_input z (task_remote t)) evs)"
proof -
  have "\<exists>t'. for_each (remote_task_turn z) evs t = Running t' \<and> task_after z evs t t'"
    using assms
  proof (induction evs arbitrary: t)
    case (Cons ev evs)
    then obtain t1 where t1: "remote_task_turn z ev t = Running t1" and a1: "task_after z [ev] t t1"
      using remote_task_turn_survives [of z t ev] by auto
    note dep = events_depend_on [of "task_remote t1" "task_remote t" z]
    have "list_all (survivable z (task_remote t1)) evs"
      using Cons.prems a1 dep(1) by (simp add: task_after_def list_all_iff)
    from Cons.IH [OF this] obtain t' where "for_each (remote_task_turn z) evs t1 = Running t'"
        and "task_after z evs t1 t'" by blast
    with t1 a1 show ?case
      using dep(2,3) by (auto simp: task_after_def cong: map_cong)
  qed (simp add: task_after_def)
  then obtain t' where t': "for_each (remote_task_turn z) evs t = Running t'" and a: "task_after z evs t t'" by blast
  have "unsent (remote_socket (task_remote t')) = []" if last: "evs = evs0 @ [Outgoing (Inr out) Flushed]" for evs0 out
  proof -
    obtain t0 where "for_each (remote_task_turn z) evs0 t = Running t0"
      and "remote_task_turn z (Outgoing (Inr out) Flushed) t0 = Running t'"
      using t' unfolding last for_each_append
      by (cases "for_each (remote_task_turn z) evs0 t") (simp_all add: chain_nil)
    then show ?thesis using flushed_turn by blast
  qed
  with t' a show ?thesis by (auto simp: remote_task_run_def task_after_def outgoing_line_def)
qed

theorem remote_task_forwards_witness:
  "\<exists>t'. remote_task_run demo_lz4
       [Outgoing (Inr \<lparr>destination = SocketV4 3 4, packet_bytes = [1]\<rparr>) (Failed Network_Unreachable True 0),
        Outgoing (Inl (Lagged 2)) Flushed, Outgoing (Inr \<lparr>destination = SocketV4 3 4, packet_bytes = [2]\<rparr>) Flushed,
        Incoming (Some (Received [42, 7] (SocketV4 3 4))) True] \<lparr>task_remote = demo_remote ''eth0'', to_manager = []\<rparr> =
       Running t' \<and> map raw_bytes (to_manager t') = [[7]] \<and>
     wire (remote_socket (task_remote t')) @ unsent (remote_socket (task_remote t')) =
       [([42, 1], SocketV4 3 4), ([42, 2], SocketV4 3 4)]"
proof -
  let ?t = "\<lparr>task_remote = demo_remote ''eth0'', to_manager = []\<rparr>"
  let ?evs = "[Outgoing (Inr \<lparr>destination = SocketV4 3 4, packet_bytes = [1]\<rparr>) (Failed Network_Unreachable True 0),
        Outgoing (Inl (Lagged 2)) Flushed, Outgoing (Inr \<lparr>destination = SocketV4 3 4, packet_bytes = [2]\<rparr>) Flushed,
        Incoming (Some (Received [42, 7] (SocketV4 3 4))) True]"
  have "list_all (survivable demo_lz4 (task_remote ?t)) ?evs" by code_simp
  moreover have "map raw_bytes (concat (map (manager_input demo_lz4 (task_remote ?t)) ?evs)) = [[7]]" by code_simp
  moreover have "wire (remote_socket (task_remote ?t)) @ unsent (remote_socket (task_remote ?t)) @
      concat (map (wire_output demo_lz4 (task_remote ?t)) ?evs) = [([42, 1], SocketV4 3 4), ([42, 2], SocketV4 3 4)]"
    by code_simp
  ultimately show ?thesis using remote_task_forwards [of demo_lz4 ?t ?evs] by auto
qed

text \<open>C30. What a single datagram from the network can do to a remote's task. A plain UDP remote passes
  any bytes on; a compressing remote panics on a datagram that does not decompress, so that
  anybody who can reach its port can stop it, although \<open>handle_udp_packet\<close> means garbage to be
  thrown away. An error of the input stream stops the task of either kind.\<close>

theorem remote_task_on_datagram:
  "is_running (remote_task_turn z (Incoming (Some (Received w a)) True) t) =
     (case task_remote t of
        Udp_Remote u \<Rightarrow> True
      | Udp_Lz4_Remote l \<Rightarrow> decompress_size_prepended z w \<noteq> None) \<and>
   \<not> is_running (remote_task_turn z (Incoming (Some (Stream_Error k)) True) t)"
  by (simp add: remote_task_turn_def dyn.read_received dyn.read_error split: option.splits dyn_remote.splits)

text \<open>C31. A remote that starts is bound as configured: to the device unless \<open>bind_to_device\<close> is false
  (the default is true), to the configured address, or else the first IPv4 address of the first
  interface of that name, and to the configured port; it reads under the configured interface name
  and has sent nothing.\<close>

theorem make_remote_binding:
  assumes "make_remote sys dev = Inr r"
  shows "bound_device (remote_socket r) = (if bind_to_device dev = Some False then None else Some (iface dev)) \<and>
    (\<exists>a. bound_address (remote_socket r) = SocketV4 a (listen_port dev) \<and>
       (case listen_addr dev of
          Some b \<Rightarrow> a = b
        | None \<Rightarrow> \<exists>ifc. find (\<lambda>i. iface_name i = iface dev) (interfaces sys) = Some ifc \<and>
            find is_ipv4 (ips ifc) = Some (V4 a))) \<and>
    wire (remote_socket r) = [] \<and> unsent (remote_socket r) = [] \<and> remote_get_interface r = iface dev"
proof -
  have ip: "\<exists>ifc. find (\<lambda>i. iface_name i = n) (interfaces sys) = Some ifc \<and> find is_ipv4 (ips ifc) = Some (V4 a)"
    if "interface_to_ipaddr sys n = Inr a" for n a
    using that by (auto simp: interface_to_ipaddr_def split: option.splits ip_addr.splits)
  have sock: "bound_device s = (if b then Some n else None) \<and> wire s = [] \<and> unsent s = [] \<and>
      (\<exists>a. bound_address s = SocketV4 a port \<and> (case addr of Some c \<Rightarrow> a = c
        | None \<Rightarrow> \<exists>ifc. find (\<lambda>i. iface_name i = n) (interfaces sys) = Some ifc \<and> find is_ipv4 (ips ifc) = Some (V4 a)))"
    if "make_socket sys n addr port b = Inr s" for n addr port b s
    using that ip by (auto simp: make_socket_def Let_def split: if_splits option.splits sum.splits)
  have "make_socket sys (iface dev) (listen_addr dev) (listen_port dev) (bind_to_device dev \<noteq> Some False) =
      Inr (remote_socket r) \<and> remote_get_interface r = iface dev"
    using assms
    by (cases dev) (auto simp: make_remote_def udp_new_def lz4_new_def remote_get_interface_def
        udp_get_interface_def lz4_get_interface_def map_sum_def split: option.splits sum.splits)
  with sock [of "iface dev" "listen_addr dev" "listen_port dev"] show ?thesis by auto
qed

theorem make_remote_binding_witness:
  "bound_address (remote_socket (projr (make_remote demo_os (UDPLz4 ''eth0'' None 10 None)))) = SocketV4 0x0A0C0001 10 \<and>
   bound_device (remote_socket (projr (make_remote demo_os (UDPLz4 ''eth0'' None 10 None)))) = Some ''eth0''"
proof -
  let ?r = "projr (make_remote demo_os (UDPLz4 ''eth0'' None 10 None))"
  have r: "make_remote demo_os (UDPLz4 ''eth0'' None 10 None) = Inr ?r" by code_simp
  have "bound_address (remote_socket ?r) = SocketV4 0x0A0C0001 10" by code_simp
  with make_remote_binding [OF r] show ?thesis by simp
qed

text \<open>Only the first remote is watched: the tasks never finish, so \<open>RemoteManager::run\<close> notices a
  panic of the first one only. Any other remote can be dead while the manager waits.\<close>

lemma remote_manager_watches_first:
  assumes "Task_Finished \<notin> set remote_tasks"
  shows "(remote_manager_run remote_tasks = Join_Panicked \<longleftrightarrow>
      (\<exists>rest. remote_tasks = Task_Panicked # rest)) \<and>
    (remote_manager_run remote_tasks = Join_Waiting \<longleftrightarrow>
      (\<exists>rest. remote_tasks = Task_Running # rest))"
  using assms by (cases remote_tasks rule: await_tasks.cases) (simp_all add: remote_manager_run_def)

end
