(* ===== verification/Local_Device.thy ===== *)
theory Local_Device
  imports Messages
begin

text \<open>
  The local side: \<open>async_pcap.rs\<close> (a capture device as an asynchronous stream), \<open>local.rs\<close> (a capture
  device or a TUN device) and \<open>local_manager.rs\<close> (the task that moves frames between the device and
  the connection manager).

  The device is what has been sent out on it. \<open>libpcap\<close>, the TUN driver and the runtime's readiness
  notifications are outside the program: what they answer is an argument.
\<close>

section \<open>\<open>AsyncPcapStream\<close>\<close>

text \<open>What \<open>poll_write_ready\<close> or \<open>poll_read_ready\<close> answers, time after time, until it has nothing more
  to report and the poll is pending; a positive answer comes with what the capture then does.\<close>

datatype 'a readiness = Ready_Error | Ready_For 'a

datatype 'a poll = Poll_Pending | Poll_Ready 'a

text \<open>An \<open>io::Result\<close>; \<open>try_io\<close> turns \<open>WouldBlock\<close> into its own error and passes the rest on.\<close>

datatype 'a io_result = Io_Ok 'a | Would_Block | Io_Error

datatype send_answer = Sent | Pcap_Error string | Other_Pcap_Error

datatype read_answer = Captured byte_vec | Capture_Error

text \<open>The closure of \<open>try_io\<close> in \<open>poll_write\<close>.\<close>

definition try_send :: "byte_vec \<Rightarrow> send_answer \<Rightarrow> panic + nat io_result" where
  "try_send buf ans =
     (case ans of
        Sent \<Rightarrow> Inr (Io_Ok (length buf))
      | Pcap_Error e \<Rightarrow>
          if e = ''send: Message too long'' then Inr (Io_Ok (length buf))
          else Inl (Explicit_Panic ''Failed to send packet!'')
      | Other_Pcap_Error \<Rightarrow> Inl (Explicit_Panic ''Failed to send packet!''))"

text \<open>The loop of \<open>poll_write\<close>. Next to the result, what went out on the device.\<close>

fun poll_write ::
    "byte_vec \<Rightarrow> send_answer readiness list \<Rightarrow> panic + nat io_result poll \<times> byte_vec list" where
  "poll_write buf [] = Inr (Poll_Pending, [])"
| "poll_write buf (Ready_Error # rest) = Inr (Poll_Ready Io_Error, [])"
| "poll_write buf (Ready_For ans # rest) =
     (case try_send buf ans of
        Inl p \<Rightarrow> Inl p
      | Inr Would_Block \<Rightarrow> poll_write buf rest
      | Inr result \<Rightarrow> Inr (Poll_Ready result, if ans = Sent then [buf] else []))"

definition poll_flush :: "panic + unit io_result poll" where
  "poll_flush = Inl (Todo ''poll_flush'')"

definition poll_shutdown :: "panic + unit io_result poll" where
  "poll_shutdown = Inl (Todo ''poll_shutdown'')"

text \<open>The closure of \<open>try_io\<close> in \<open>poll_read\<close>: \<open>put_slice\<close> panics if the data does not fit into the
  \<open>remaining\<close> bytes of the buffer, and any error of the capture becomes \<open>WouldBlock\<close>.\<close>

definition try_next :: "nat \<Rightarrow> read_answer \<Rightarrow> panic + byte_vec io_result" where
  "try_next remaining ans =
     (case ans of
        Captured data \<Rightarrow>
          if length data \<le> remaining then Inr (Io_Ok data) else Inl (Explicit_Panic ''put_slice'')
      | Capture_Error \<Rightarrow> Inr Would_Block)"

fun poll_read :: "nat \<Rightarrow> read_answer readiness list \<Rightarrow> panic + byte_vec io_result poll" where
  "poll_read remaining [] = Inr Poll_Pending"
| "poll_read remaining (Ready_Error # rest) = Inr (Poll_Ready Io_Error)"
| "poll_read remaining (Ready_For ans # rest) =
     (case try_next remaining ans of
        Inl p \<Rightarrow> Inl p
      | Inr Would_Block \<Rightarrow> poll_read remaining rest
      | Inr result \<Rightarrow> Inr (Poll_Ready result))"

text \<open>What opening a capture device answers, step by step.\<close>

record pcap_open =
  from_device_ok :: "string \<Rightarrow> bool"
  open_ok :: bool
  setnonblock_ok :: bool
  async_fd_ok :: bool

definition async_pcap_new :: "pcap_open \<Rightarrow> string \<Rightarrow> panic + string option" where
  "async_pcap_new pc device_name =
     (if \<not> from_device_ok pc device_name then Inl (Unwrap_Err ''Could not open device'')
      else if \<not> open_ok pc then Inl (Unwrap_Err ''Failed to open device correctly'')
      else if \<not> setnonblock_ok pc then Inl (Unwrap_Err ''Failed to configure interface as non-block'')
      else Inr (if async_fd_ok pc then Some device_name else None))"

section \<open>\<open>Local\<close>\<close>

record tun_config =
  tun_name :: string
  tap :: bool
  packet_info :: bool
  mtu :: nat
  up :: bool
  address :: ipv4_addr
  tun_broadcast :: ipv4_addr
  netmask :: ipv4_addr

datatype local_kind = Layer2_Device string | Layer3_Device tun_config

text \<open>A device with the frames written to it.\<close>

record local =
  kind :: local_kind
  written :: "byte_vec list"

text \<open>What the TUN driver answers when the device is made. The values that \<open>make_tunnel\<close> reports are
  unwrapped among the arguments of \<open>info!\<close>, which are evaluated only if that level is enabled.\<close>

record tun_driver =
  try_build :: "tun_config \<Rightarrow> bool"
  info_enabled :: bool
  mtu_ok :: bool
  flags_ok :: bool
  address_ok :: bool
  destination_ok :: bool
  broadcast_ok :: bool
  netmask_ok :: bool

definition make_tunnel :: "tun_driver \<Rightarrow> ipv4_addr \<Rightarrow> panic + tun_config" where
  "make_tunnel drv tun_ip =
     (let cfg = \<lparr>tun_name = [], tap = False, packet_info = False, mtu = 1424, up = True,
                 address = tun_ip, tun_broadcast = 0xFFFFFFFF, netmask = 0xFFFFFF00\<rparr>
      in if \<not> try_build drv cfg then Inl (Unwrap_Err ''try_build'')
         else if \<not> info_enabled drv then Inr cfg
         else if \<not> mtu_ok drv then Inl (Unwrap_Err ''tun.mtu'')
         else if \<not> flags_ok drv then Inl (Unwrap_Err ''tun.flags'')
         else if \<not> address_ok drv then Inl (Unwrap_Err ''tun.address'')
         else if \<not> destination_ok drv then Inl (Unwrap_Err ''tun.destination'')
         else if \<not> broadcast_ok drv then Inl (Unwrap_Err ''tun.broadcast'')
         else if \<not> netmask_ok drv then Inl (Unwrap_Err ''tun.netmask'')
         else Inr cfg)"

definition local_new ::
    "pcap_open \<Rightarrow> tun_driver \<Rightarrow> settings_file \<Rightarrow> panic + local" where
  "local_new pc drv settings =
     (case local_type settings of
        Layer2_Local network_interface \<Rightarrow>
          (case async_pcap_new pc network_interface of
             Inl p \<Rightarrow> Inl p
           | Inr None \<Rightarrow> Inl (Unwrap_Err ''AsyncPcapStream::new'')
           | Inr (Some dev) \<Rightarrow> Inr \<lparr>kind = Layer2_Device dev, written = []\<rparr>)
      | Layer3_Local tun_ip \<Rightarrow>
          (case make_tunnel drv tun_ip of
             Inl p \<Rightarrow> Inl p
           | Inr cfg \<Rightarrow> Inr \<lparr>kind = Layer3_Device cfg, written = []\<rparr>))"

text \<open>
  What the device answers while a write or a read waits: the readiness notifications of the capture
  device, or what the TUN driver does. A call that has not resolved is \<open>None\<close>. \<open>write_buf\<close> of an empty
  buffer succeeds without a call to the device.
\<close>

definition local_write ::
    "send_answer readiness list \<Rightarrow> bool option \<Rightarrow> byte_vec \<Rightarrow> local \<Rightarrow> local outcome option" where
  "local_write answers tun_result buffer loc =
     (if buffer = [] then Some (Running loc) else
      case kind loc of
        Layer2_Device dev \<Rightarrow>
          (case poll_write buffer answers of
             Inl p \<Rightarrow> Some (Panicked p loc)
           | Inr (Poll_Ready (Io_Ok n), out) \<Rightarrow> Some (Running (loc\<lparr>written := written loc @ out\<rparr>))
           | Inr (Poll_Ready err, out) \<Rightarrow> Some (Panicked (Unwrap_Err ''write_buf'') loc)
           | Inr (Poll_Pending, out) \<Rightarrow> None)
      | Layer3_Device cfg \<Rightarrow>
          (case tun_result of
             None \<Rightarrow> None
           | Some True \<Rightarrow> Some (Running (loc\<lparr>written := written loc @ [buffer]\<rparr>))
           | Some False \<Rightarrow> Some (Panicked (Unwrap_Err ''write_buf'') loc)))"

definition local_read ::
    "nat \<Rightarrow> read_answer readiness list \<Rightarrow> byte_vec io_result option \<Rightarrow> byte_vec \<Rightarrow> local \<Rightarrow> (panic + byte_vec) option" where
  "local_read remaining answers tun_result buffer loc =
     (case kind loc of
        Layer2_Device dev \<Rightarrow>
          (case poll_read remaining answers of
             Inl p \<Rightarrow> Some (Inl p)
           | Inr (Poll_Ready (Io_Ok data)) \<Rightarrow> Some (Inr (buffer @ data))
           | Inr (Poll_Ready err) \<Rightarrow> Some (Inl (Unwrap_Err ''read_buf''))
           | Inr Poll_Pending \<Rightarrow> None)
      | Layer3_Device cfg \<Rightarrow>
          (case tun_result of
             None \<Rightarrow> None
           | Some (Io_Ok data) \<Rightarrow> Some (Inr (buffer @ data))
           | Some err \<Rightarrow> Some (Inl (Unwrap_Err ''read_buf''))))"

section \<open>\<open>LocalManager\<close>\<close>

text \<open>The task's device and read buffer, and what it has sent to the connection manager.\<close>

record local_manager =
  device :: local
  tun_buf :: byte_vec
  packets_from_local :: "byte_vec list"

definition tun_buf_capacity :: nat where
  "tun_buf_capacity = 65535"

definition local_manager_new ::
    "pcap_open \<Rightarrow> tun_driver \<Rightarrow> settings_file \<Rightarrow> panic + local_manager" where
  "local_manager_new pc drv settings =
     (case local_new pc drv settings of
        Inl p \<Rightarrow> Inl p
      | Inr loc \<Rightarrow> Inr \<lparr>device = loc, tun_buf = [], packets_from_local = []\<rparr>)"

text \<open>The branches of \<open>select!\<close>: the device has something to read (and the connection manager takes it
  or not), or the connection manager has sent a packet (\<open>None\<close> once its channel is closed).\<close>

datatype local_event =
    Device_Read "read_answer readiness list" "byte_vec io_result option" bool
  | To_Device "byte_vec option" "send_answer readiness list" "bool option"

definition read_tun_buf ::
    "read_answer readiness list \<Rightarrow> byte_vec io_result option \<Rightarrow> local_manager \<Rightarrow> (panic + byte_vec) option" where
  "read_tun_buf answers tun_result m =
     local_read (tun_buf_capacity - length (tun_buf m)) answers tun_result (tun_buf m) (device m)"

declare read_tun_buf_def [simp]

text \<open>For evaluation: only a capture device looks at the room left in the buffer.\<close>

lemma read_tun_buf_code [code]:
  "read_tun_buf answers tun_result m =
     (case kind (device m) of
        Layer2_Device dev \<Rightarrow>
          local_read (tun_buf_capacity - length (tun_buf m)) answers tun_result (tun_buf m) (device m)
      | Layer3_Device cfg \<Rightarrow> local_read 0 answers tun_result (tun_buf m) (device m))"
  by (simp add: local_read_def split: local_kind.split)

definition local_manager_turn :: "local_event \<Rightarrow> local_manager \<Rightarrow> local_manager outcome option" where
  "local_manager_turn ev m =
     (case ev of
        Device_Read answers tun_result accepted \<Rightarrow>
          (case read_tun_buf answers tun_result m of
             None \<Rightarrow> None
           | Some (Inl p) \<Rightarrow> Some (Panicked p m)
           | Some (Inr buf) \<Rightarrow>
               let m1 = m\<lparr>tun_buf := buf\<rparr>
               in if accepted
                  then Some (Running (m1\<lparr>packets_from_local := packets_from_local m1 @ [tun_buf m1], tun_buf := []\<rparr>))
                  else Some (Panicked (Unwrap_Err ''packets_from_local.send'') m1))
      | To_Device (Some pkt) answers tun_result \<Rightarrow>
          (case local_write answers tun_result pkt (device m) of
             None \<Rightarrow> None
           | Some r \<Rightarrow> Some (and_then r (\<lambda>d. Running (m\<lparr>device := d\<rparr>)) (\<lambda>d. m\<lparr>device := d\<rparr>)))
      | To_Device None answers tun_result \<Rightarrow>
          Some (Panicked (Explicit_Panic ''LocalManager: packets_to_local channel was not readable'') m))"

definition local_manager_run :: "task_state list \<Rightarrow> joined" where
  "local_manager_run tasks = await_tasks tasks"

lemmas local_defs [mpconn_defs] =
  try_send_def poll_flush_def poll_shutdown_def try_next_def async_pcap_new_def make_tunnel_def
  local_new_def local_write_def local_read_def local_manager_new_def local_manager_turn_def
  local_manager_run_def

text \<open>A sequence of turns; it stops at the first panic, and has no result if a turn does not end.\<close>

fun local_manager_turns :: "local_event list \<Rightarrow> local_manager \<Rightarrow> local_manager outcome option" where
  "local_manager_turns [] m = Some (Running m)"
| "local_manager_turns (ev # evs) m =
     (case local_manager_turn ev m of
        None \<Rightarrow> None
      | Some (Running m') \<Rightarrow> local_manager_turns evs m'
      | Some (Panicked p m') \<Rightarrow> Some (Panicked p m'))"

section \<open>Polling in closed form\<close>

lemma try_send_not_would_block: "try_send buf ans \<noteq> Inr Would_Block"
  by (simp add: try_send_def split: send_answer.splits)

lemma poll_write_first:
  "poll_write buf (Ready_For ans # rest) =
    (case ans of
       Sent \<Rightarrow> Inr (Poll_Ready (Io_Ok (length buf)), [buf])
     | Pcap_Error e \<Rightarrow> if e = ''send: Message too long'' then Inr (Poll_Ready (Io_Ok (length buf)), [])
         else Inl (Explicit_Panic ''Failed to send packet!'')
     | Other_Pcap_Error \<Rightarrow> Inl (Explicit_Panic ''Failed to send packet!''))"
  by (simp add: try_send_def split: send_answer.splits)

text \<open>The answers from the first one on that is not an error of the capture.\<close>

definition skip_errors :: "read_answer readiness list \<Rightarrow> read_answer readiness list" where
  "skip_errors = dropWhile (\<lambda>a. a = Ready_For Capture_Error)"

lemma poll_read_skip: "poll_read n answers = poll_read n (skip_errors answers)"
  by (induction n answers rule: poll_read.induct) (auto simp: skip_errors_def try_next_def)

lemma skip_errors_cases:
  obtains "skip_errors answers = []"
  | rest where "skip_errors answers = Ready_Error # rest"
  | data rest where "skip_errors answers = Ready_For (Captured data) # rest"
proof (cases "skip_errors answers")
  case (Cons a rest)
  then have "a \<noteq> Ready_For Capture_Error"
    using hd_dropWhile [of "\<lambda>a. a = Ready_For Capture_Error" answers] by (auto simp: skip_errors_def)
  with Cons show ?thesis
    using that by (metis read_answer.exhaust readiness.exhaust)
qed (use that in auto)

lemma poll_read_eq:
  "poll_read n answers = (case skip_errors answers of
     Ready_For (Captured data) # rest \<Rightarrow>
       if length data \<le> n then Inr (Poll_Ready (Io_Ok data)) else Inl (Explicit_Panic ''put_slice'')
   | [] \<Rightarrow> Inr Poll_Pending
   | _ \<Rightarrow> Inr (Poll_Ready Io_Error))"
  by (subst poll_read_skip, cases answers rule: skip_errors_cases) (simp_all add: try_next_def)

section \<open>Properties\<close>

text \<open>Events that end without a panic on a device of the given kind, the frames they read and the
  packets they put out.\<close>

definition is_layer2 :: "local \<Rightarrow> bool" where
  "is_layer2 loc = (case kind loc of Layer2_Device dev \<Rightarrow> True | Layer3_Device cfg \<Rightarrow> False)"

definition frame_read :: "bool \<Rightarrow> local_event \<Rightarrow> byte_vec list" where
  "frame_read layer2 ev =
     (case ev of
        Device_Read answers tun_result accepted \<Rightarrow>
          if layer2 then (case skip_errors answers of Ready_For (Captured data) # rest \<Rightarrow> [data] | _ \<Rightarrow> [])
          else (case tun_result of Some (Io_Ok data) \<Rightarrow> [data] | _ \<Rightarrow> [])
      | To_Device pkt answers tun_result \<Rightarrow> [])"

definition packet_written :: "bool \<Rightarrow> local_event \<Rightarrow> byte_vec list" where
  "packet_written layer2 ev =
     (case ev of
        To_Device (Some pkt) answers tun_result \<Rightarrow>
          if pkt = [] then []
          else if layer2 then (case answers of Ready_For Sent # rest \<Rightarrow> [pkt] | _ \<Rightarrow> [])
          else (if tun_result = Some True then [pkt] else [])
      | _ \<Rightarrow> [])"

definition smooth :: "bool \<Rightarrow> local_event \<Rightarrow> bool" where
  "smooth layer2 ev =
     (case ev of
        Device_Read answers tun_result accepted \<Rightarrow>
          accepted \<and> frame_read layer2 ev \<noteq> [] \<and>
          (layer2 \<longrightarrow> list_all (\<lambda>data. length data \<le> tun_buf_capacity) (frame_read layer2 ev))
      | To_Device (Some pkt) answers tun_result \<Rightarrow>
          if pkt = [] then True
          else if layer2 then (case answers of
              Ready_For (Pcap_Error e) # rest \<Rightarrow> e = ''send: Message too long''
            | Ready_For Sent # rest \<Rightarrow> True
            | _ \<Rightarrow> False)
          else tun_result = Some True
      | To_Device None answers tun_result \<Rightarrow> False)"

definition manager_after :: "local_event list \<Rightarrow> local_manager \<Rightarrow> local_manager \<Rightarrow> bool" where
  "manager_after evs m m' \<longleftrightarrow> tun_buf m' = [] \<and> kind (device m') = kind (device m) \<and>
     packets_from_local m' = packets_from_local m @ concat (map (frame_read (is_layer2 (device m))) evs) \<and>
     written (device m') = written (device m) @ concat (map (packet_written (is_layer2 (device m))) evs)"

lemma smooth_read:
  assumes "smooth (is_layer2 (device m)) (Device_Read answers tun_result accepted)" and "tun_buf m = []"
  shows "\<exists>m'. local_manager_turn (Device_Read answers tun_result accepted) m = Some (Running m') \<and>
    manager_after [Device_Read answers tun_result accepted] m m'"
proof (cases "kind (device m)")
  case (Layer2_Device dev)
  with assms show ?thesis
    by (cases answers rule: skip_errors_cases)
      (auto simp: local_manager_turn_def local_read_def poll_read_eq smooth_def frame_read_def is_layer2_def
        manager_after_def packet_written_def)
next
  case (Layer3_Device cfg)
  with assms show ?thesis
    by (auto simp: local_manager_turn_def local_read_def smooth_def frame_read_def is_layer2_def
        manager_after_def packet_written_def split: option.splits io_result.splits)
qed

lemma smooth_write:
  assumes "smooth (is_layer2 (device m)) (To_Device (Some pkt) answers tun_result)" and "tun_buf m = []"
  shows "\<exists>m'. local_manager_turn (To_Device (Some pkt) answers tun_result) m = Some (Running m') \<and>
    manager_after [To_Device (Some pkt) answers tun_result] m m'"
proof (cases "kind (device m)"; cases "pkt = []")
  fix dev assume Layer2_Device: "kind (device m) = Layer2_Device dev" and "pkt \<noteq> []"
  with assms obtain ans rest where a: "answers = Ready_For ans # rest"
    and "ans = Sent \<or> ans = Pcap_Error ''send: Message too long''"
    by (auto simp: smooth_def is_layer2_def split: list.splits readiness.splits send_answer.splits)
  with Layer2_Device assms(2) \<open>pkt \<noteq> []\<close> show ?thesis
    by (auto simp: local_manager_turn_def local_write_def poll_write_first frame_read_def is_layer2_def
        manager_after_def packet_written_def simp del: poll_write.simps)
next
  fix cfg assume "kind (device m) = Layer3_Device cfg" and "pkt \<noteq> []"
  with assms show ?thesis
    by (auto simp: local_manager_turn_def local_write_def smooth_def frame_read_def is_layer2_def
        manager_after_def packet_written_def)
qed (use assms(2) in \<open>auto simp: local_manager_turn_def local_write_def manager_after_def packet_written_def frame_read_def\<close>)

lemma smooth_turn:
  assumes "smooth (is_layer2 (device m)) ev" and "tun_buf m = []"
  shows "\<exists>m'. local_manager_turn ev m = Some (Running m') \<and> manager_after [ev] m m'"
proof (cases ev)
  case (Device_Read answers tun_result accepted)
  with smooth_read assms show ?thesis by simp
next
  case (To_Device pkt answers tun_result)
  with smooth_write assms show ?thesis by (cases pkt) (auto simp: smooth_def)
qed

text \<open>C32. The local manager moves frames one by one and unchanged: every frame read from the device is
  one message to the connection manager, every packet from the connection manager is written to
  the device once, in order; an empty packet and one too long for a layer 2 device are dropped and
  nothing else is.
  The read buffer is empty again after every turn, so frames never run together, and a frame
  of up to 65535 bytes always fits.\<close>

theorem local_manager_moves_frames:
  assumes "list_all (smooth (is_layer2 (device m))) evs" and "tun_buf m = []"
  shows "\<exists>m'. local_manager_turns evs m = Some (Running m') \<and> tun_buf m' = [] \<and>
    packets_from_local m' = packets_from_local m @ concat (map (frame_read (is_layer2 (device m))) evs) \<and>
    written (device m') = written (device m) @ concat (map (packet_written (is_layer2 (device m))) evs)"
proof -
  have "\<exists>m'. local_manager_turns evs m = Some (Running m') \<and> manager_after evs m m'"
    using assms
  proof (induction evs arbitrary: m)
    case (Cons ev evs)
    then obtain m1 where "local_manager_turn ev m = Some (Running m1)" and m1: "manager_after [ev] m m1"
      using smooth_turn [of m ev] by auto
    moreover from m1 have "is_layer2 (device m1) = is_layer2 (device m)" and "tun_buf m1 = []"
      by (simp_all add: manager_after_def is_layer2_def)
    moreover from this Cons.prems obtain m' where "local_manager_turns evs m1 = Some (Running m')"
        and "manager_after evs m1 m'" using Cons.IH [of m1] by auto
    ultimately show ?case by (auto simp: manager_after_def)
  qed (simp add: manager_after_def)
  then show ?thesis by (auto simp: manager_after_def)
qed

definition demo_local_manager :: local_manager where
  "demo_local_manager = \<lparr>device = \<lparr>kind = Layer2_Device ''eth1'', written = []\<rparr>, tun_buf = [], packets_from_local = []\<rparr>"

definition demo_local_events :: "local_event list" where
  "demo_local_events =
     [Device_Read [Ready_For Capture_Error, Ready_For (Captured [1, 2])] None True,
      To_Device (Some [5]) [Ready_For (Pcap_Error ''send: Message too long'')] None,
      To_Device (Some [6]) [Ready_For Sent] None, Device_Read [Ready_For (Captured [3])] None True]"

theorem local_manager_moves_frames_witness:
  "\<exists>m'. local_manager_turns demo_local_events demo_local_manager = Some (Running m') \<and>
     packets_from_local m' = [[1, 2], [3]] \<and> written (device m') = [[6]]"
proof -
  have "tun_buf demo_local_manager = []" and "packets_from_local demo_local_manager = []"
    and "written (device demo_local_manager) = []" by (simp_all add: demo_local_manager_def)
  moreover have "list_all (smooth (is_layer2 (device demo_local_manager))) demo_local_events"
    by (simp add: demo_local_events_def demo_local_manager_def is_layer2_def smooth_def frame_read_def
        skip_errors_def tun_buf_capacity_def)
  moreover have "concat (map (frame_read (is_layer2 (device demo_local_manager))) demo_local_events) = [[1, 2], [3]]"
    and "concat (map (packet_written (is_layer2 (device demo_local_manager))) demo_local_events) = [[6]]"
    by code_simp+
  ultimately show ?thesis
    using local_manager_moves_frames [of demo_local_manager demo_local_events] by auto
qed

text \<open>C33. A capture device as a stream: a write is decided by the first readiness notification (the
  closure never reports \<open>WouldBlock\<close>, so the loop never turns), and reports the whole buffer as
  written also where the packet was too long and dropped. A read passes over all errors of the
  capture, however many, as if there were nothing to read yet, and ends with the first frame, a
  readiness error, or pending.\<close>

theorem pcap_stream_polls:
  "poll_write buf (Ready_For ans # rest) = poll_write buf [Ready_For ans] \<and>
   (\<forall>n out. poll_write buf answers = Inr (Poll_Ready (Io_Ok n), out) \<longrightarrow>
      n = length buf \<and> (out = [buf] \<or> out = [] \<and> (\<exists>rest. answers = Ready_For (Pcap_Error ''send: Message too long'') # rest))) \<and>
   poll_read remaining (replicate k (Ready_For Capture_Error) @ Ready_For (Captured data) # later_answers) =
     (if length data \<le> remaining then Inr (Poll_Ready (Io_Ok data)) else Inl (Explicit_Panic ''put_slice'')) \<and>
   poll_read remaining (replicate k (Ready_For Capture_Error)) = Inr Poll_Pending"
proof -
  have "skip_errors (replicate k (Ready_For Capture_Error) @ as) = skip_errors as" for as
    by (induction k) (simp_all add: skip_errors_def)
  note skip = this this [of "[]", simplified]
  have "n = length buf \<and> (out = [buf] \<or> out = [] \<and>
      (\<exists>rest. answers = Ready_For (Pcap_Error ''send: Message too long'') # rest))"
    if "poll_write buf answers = Inr (Poll_Ready (Io_Ok n), out)" for n out
    using that
    by (cases "(buf, answers)" rule: poll_write.cases)
      (auto simp: try_send_def split: send_answer.splits if_splits)
  then show ?thesis
    by (simp add: poll_write_first poll_read_eq skip del: poll_write.simps) (simp add: skip_errors_def)
qed

theorem pcap_stream_polls_witness:
  "poll_write [7, 8] [Ready_For (Pcap_Error ''send: Message too long'')] = Inr (Poll_Ready (Io_Ok 2), []) \<and>
   (\<exists>rest. [Ready_For (Pcap_Error ''send: Message too long'')] = Ready_For (Pcap_Error ''send: Message too long'') # rest)"
proof -
  have "poll_write [7, 8] [Ready_For (Pcap_Error ''send: Message too long'')] = Inr (Poll_Ready (Io_Ok 2), [])"
    by code_simp
  then show ?thesis
    using pcap_stream_polls [of "[7, 8]" Sent "[]" "[Ready_For (Pcap_Error ''send: Message too long'')]" 0 0 "[]" "[]"]
    by auto
qed

end
