(* ===== verification/Node.thy ===== *)
theory Node
  imports Tunnel Remote_Manager Local_Device
begin

text \<open>
  \<open>main.rs\<close>: the tasks of a node and the channels between them. The managers of the other theories
  run as tasks that interleave freely; the channels hold 128 messages, and a task that sends into a
  full one waits and does nothing else.

  What a handler sends to a bounded channel is collected in the outbox of its task and moves into the
  channel message by message; the task starts its next turn when the outbox is empty. To the
  other tasks this is what the handler does, since they see of it only what arrives in the channel.

  The capacity of the channels and the loss of a lagging receiver of the broadcast channel are what
  \<open>tokio\<close> guarantees of \<open>mpsc::channel(128)\<close> and \<open>broadcast::channel(128)\<close>; the steps below assume them.
  They are the steps that go well: what panics do to the tasks is the subject of \<open>Shutdown\<close>.
\<close>

section \<open>State\<close>

definition channel_capacity :: nat where
  "channel_capacity = 128"

text \<open>A remote's task with the unread part of the broadcast channel (as its receiver sees it) and its
  outbox.\<close>

record node_remote =
  rtask :: remote_task
  unread :: "outgoing_udp_packet list"
  recv_outbox :: "incoming_unparsed_packet list"

record node =
  node_remotes :: "node_remote list"
  raw_udp :: "incoming_unparsed_packet list"
  node_cm :: connection_manager
  cm_outbox :: "byte_vec list"
  to_local :: "byte_vec list"
  node_lm :: local_manager
  lm_outbox :: "byte_vec list"
  from_local :: "byte_vec list"

text \<open>What \<open>main\<close> finds: the parsed command line and settings file and what the operating system
  answers.\<close>

record machine =
  args_debug :: bool
  log_create_ok :: bool
  log_header_ok :: bool
  config_readable :: bool
  config :: "settings_file option"
  machine_os :: os
  machine_pcap :: pcap_open
  machine_tun :: tun_driver

definition log_header :: string where
  "log_header = ''ts,pkt_idx,inface'' @ [CHR 0x0A]"

definition open_log :: "machine \<Rightarrow> panic + string list option" where
  "open_log mc =
     (if args_debug mc then
        if \<not> log_create_ok mc then Inl (Unwrap_Err ''File::create'')
        else if \<not> log_header_ok mc then Inl (Unwrap_Err ''if_log.write_all'')
        else Inr (Some [log_header])
      else Inr None)"

definition main_start :: "(nat \<Rightarrow> nat \<Rightarrow> system_time) \<Rightarrow> machine \<Rightarrow> panic + node" where
  "main_start ts mc =
     (case open_log mc of
        Inl p \<Rightarrow> Inl p
      | Inr logger \<Rightarrow>
          if \<not> config_readable mc then Inl (Unwrap_Err ''std::fs::read_to_string'') else
          (case config mc of
             None \<Rightarrow> Inl (Unwrap_Err ''serde_json::from_str'')
           | Some settings \<Rightarrow>
               (case remote_manager_new (machine_os mc) settings of
                  Inl p \<Rightarrow> Inl p
                | Inr tasks \<Rightarrow>
                    (let cm = connection_manager_new ts settings logger
                     in case local_manager_new (machine_pcap mc) (machine_tun mc) settings of
                          Inl p \<Rightarrow> Inl p
                        | Inr lm \<Rightarrow> Inr
                            \<lparr>node_remotes = map (\<lambda>t. \<lparr>rtask = t, unread = [], recv_outbox = []\<rparr>) tasks,
                             raw_udp = [], node_cm = cm, cm_outbox = [], to_local = [],
                             node_lm = lm, lm_outbox = [], from_local = []\<rparr>))))"

text \<open>At the end \<open>main\<close> waits for its three tasks, in this order.\<close>

definition main_waits :: "task_state \<Rightarrow> task_state \<Rightarrow> task_state \<Rightarrow> joined" where
  "main_waits remote_mgr connection_mgr local_mgr = await_tasks [remote_mgr, connection_mgr, local_mgr]"

section \<open>Steps\<close>

text \<open>A receiver of the broadcast channel that falls behind loses the oldest messages.\<close>

definition broadcast :: "outgoing_udp_packet list \<Rightarrow> node_remote \<Rightarrow> node_remote" where
  "broadcast outs r = r\<lparr>unread := (let us = unread r @ outs in drop (length us - channel_capacity) us)\<rparr>"

text \<open>The messages the connection manager's turn consumes, and what becomes of its output.\<close>

definition take_event :: "cm_event \<Rightarrow> node \<Rightarrow> node option" where
  "take_event ev n =
     (case ev of
        Raw_Udp (Some raw) \<Rightarrow>
          (case raw_udp n of r # rest \<Rightarrow> if r = raw then Some (n\<lparr>raw_udp := rest\<rparr>) else None | [] \<Rightarrow> None)
      | From_Local (Some pkt) \<Rightarrow>
          (case from_local n of p # rest \<Rightarrow> if p = pkt then Some (n\<lparr>from_local := rest\<rparr>) else None | [] \<Rightarrow> None)
      | Raw_Udp None \<Rightarrow> None
      | From_Local None \<Rightarrow> None
      | _ \<Rightarrow> Some n)"

definition after_turn :: "connection_manager \<Rightarrow> node \<Rightarrow> node" where
  "after_turn cm' n =
     n\<lparr>node_cm := cm',
       cm_outbox := drop (length (packets_to_local (node_cm n))) (packets_to_local cm'),
       node_remotes := map (broadcast (drop (length (udp_output_broadcast_to_remotes (node_cm n)))
         (udp_output_broadcast_to_remotes cm'))) (node_remotes n)\<rparr>"

definition after_read :: "local_manager \<Rightarrow> node \<Rightarrow> node" where
  "after_read lm' n =
     n\<lparr>node_lm := lm', lm_outbox := drop (length (packets_from_local (node_lm n))) (packets_from_local lm')\<rparr>"

definition after_receive :: "remote_task \<Rightarrow> node_remote \<Rightarrow> node_remote" where
  "after_receive t' r = r\<lparr>rtask := t', recv_outbox := drop (length (to_manager (rtask r))) (to_manager t')\<rparr>"

text \<open>What a node gets from outside in a step: a turn of the connection manager in its surroundings, a
  read that the local device answers, an item of the input stream of a remote.\<close>

datatype node_event =
    Manager_Turn env cm_event
  | Device_Gave "read_answer readiness list" "byte_vec io_result option"
  | Remote_Got nat "stream_item option"

text \<open>One step of some task that does not panic, with the event it takes from outside, if any.\<close>

inductive node_act :: "libs \<Rightarrow> lz4 \<Rightarrow> node_event list \<Rightarrow> node \<Rightarrow> node \<Rightarrow> bool" for L z where
  cm_takes: "cm_outbox n = [] \<Longrightarrow> take_event ev n = Some n1 \<Longrightarrow>
    run_turn L e ev (node_cm n) = Running cm' \<Longrightarrow> node_act L z [Manager_Turn e ev] n (after_turn cm' n1)"
| cm_sends: "cm_outbox n = p # ps \<Longrightarrow> length (to_local n) < channel_capacity \<Longrightarrow>
    node_act L z [] n (n\<lparr>cm_outbox := ps, to_local := to_local n @ [p]\<rparr>)"
| lm_reads: "lm_outbox n = [] \<Longrightarrow>
    local_manager_turn (Device_Read answers tun True) (node_lm n) = Some (Running lm') \<Longrightarrow>
    node_act L z [Device_Gave answers tun] n (after_read lm' n)"
| lm_sends: "lm_outbox n = f # fs \<Longrightarrow> length (from_local n) < channel_capacity \<Longrightarrow>
    node_act L z [] n (n\<lparr>lm_outbox := fs, from_local := from_local n @ [f]\<rparr>)"
| lm_writes: "lm_outbox n = [] \<Longrightarrow> to_local n = p # ps \<Longrightarrow>
    local_manager_turn (To_Device (Some p) sends tunw) (node_lm n) = Some (Running lm') \<Longrightarrow>
    node_act L z [] n (n\<lparr>to_local := ps, node_lm := lm'\<rparr>)"
| remote_sends: "i < length (node_remotes n) \<Longrightarrow> node_remotes n ! i = r \<Longrightarrow> recv_outbox r = [] \<Longrightarrow>
    unread r = out # outs \<Longrightarrow> remote_task_turn z (Outgoing (Inr out) res) (rtask r) = Running t' \<Longrightarrow>
    node_act L z [] n (n\<lparr>node_remotes := (node_remotes n)[i := r\<lparr>rtask := t', unread := outs\<rparr>]\<rparr>)"
| remote_reads: "i < length (node_remotes n) \<Longrightarrow> node_remotes n ! i = r \<Longrightarrow> recv_outbox r = [] \<Longrightarrow>
    remote_task_turn z (Incoming item True) (rtask r) = Running t' \<Longrightarrow>
    node_act L z [Remote_Got i item] n (n\<lparr>node_remotes := (node_remotes n)[i := after_receive t' r]\<rparr>)"
| remote_hands_over: "i < length (node_remotes n) \<Longrightarrow> node_remotes n ! i = r \<Longrightarrow>
    recv_outbox r = x # xs \<Longrightarrow> length (raw_udp n) < channel_capacity \<Longrightarrow>
    node_act L z [] n (n\<lparr>node_remotes := (node_remotes n)[i := r\<lparr>recv_outbox := xs\<rparr>], raw_udp := raw_udp n @ [x]\<rparr>)"

inductive_cases node_actE: "node_act L z evs n n'"

definition node_step :: "libs \<Rightarrow> lz4 \<Rightarrow> node \<Rightarrow> node \<Rightarrow> bool" where
  "node_step L z n n' \<longleftrightarrow> (\<exists>evs. node_act L z evs n n')"

lemma node_stepI: "node_act L z evs n n' \<Longrightarrow> node_step L z n n'"
  by (auto simp: node_step_def)

lemma node_stepE:
  assumes "node_step L z n n'"
  obtains evs where "node_act L z evs n n'"
  using assms by (auto simp: node_step_def)

lemmas node_defs [mpconn_defs] =
  open_log_def main_start_def main_waits_def broadcast_def take_event_def after_turn_def after_read_def
  after_receive_def

section \<open>The channels\<close>

lemma take_event_frame:
  assumes "take_event ev n = Some n1"
  shows "node_cm n1 = node_cm n \<and> cm_outbox n1 = cm_outbox n \<and> to_local n1 = to_local n \<and>
    node_lm n1 = node_lm n \<and> lm_outbox n1 = lm_outbox n \<and> node_remotes n1 = node_remotes n \<and>
    length (raw_udp n1) \<le> length (raw_udp n) \<and> length (from_local n1) \<le> length (from_local n)"
  using assms
  by (auto simp: take_event_def split: cm_event.splits option.splits list.splits if_splits)

text \<open>Everything the connection manager has sent to the local side has, in this order, been taken for the
  device, is in the channel, or waits to enter it. A TUN device writes all it takes but empty packets;
  a capture device also skips frames that are too long. No channel ever holds more than it can.\<close>

definition is_layer3 :: "node \<Rightarrow> bool" where
  "is_layer3 n \<longleftrightarrow> \<not> is_layer2 (device (node_lm n))"

definition node_inv :: "node \<Rightarrow> bool" where
  "node_inv n \<longleftrightarrow>
     length (raw_udp n) \<le> channel_capacity \<and> length (to_local n) \<le> channel_capacity \<and>
     length (from_local n) \<le> channel_capacity \<and>
     list_all (\<lambda>r. length (unread r) \<le> channel_capacity) (node_remotes n) \<and>
     (\<exists>taken. packets_to_local (node_cm n) = taken @ to_local n @ cm_outbox n \<and>
        subseq (written (device (node_lm n))) taken \<and>
        (is_layer3 n \<longrightarrow> written (device (node_lm n)) = filter (\<lambda>p. p \<noteq> []) taken))"

text \<open>The connection manager only ever appends to what it has sent, in any surroundings.\<close>

definition sends_more :: "connection_manager \<Rightarrow> connection_manager \<Rightarrow> bool" where
  "sends_more m m' \<longleftrightarrow> prefix (packets_to_local m) (packets_to_local m') \<and>
     prefix (udp_output_broadcast_to_remotes m) (udp_output_broadcast_to_remotes m')"

lemma sends_more_refl [simp]: "sends_more m m"
  by (simp add: sends_more_def)

lemma sends_more_trans: "sends_more a b \<Longrightarrow> sends_more b c \<Longrightarrow> sends_more a c"
  unfolding sends_more_def by (meson prefix_order.trans)

lemma sends_more_blocks [simp]:
  "sends_more m (final (send_to_local e b m))"
  "sends_more m (final (send_to_remotes e out m))"
  "sends_more m (final (write_interface_log e now r k m))"
  "sends_more m (final (deliver L e p m))"
  by (simp_all add: sends_more_def send_to_local_def send_to_remotes_def write_interface_log_def
      deliver_def Let_def split: option.splits director_type.splits)

lemma sends_more_for_each:
  assumes "\<And>x m. sends_more m (final (body x m))"
  shows "sends_more m (final (for_each body xs m))"
  by (rule for_each_keeps [where P = "sends_more m"]) (use assms sends_more_trans in auto)

lemma sends_more_drain:
  assumes "\<And>p m. sends_more m (final (body p m))"
  shows "sends_more m (final (put_sequencer pid (while_next body ts s m)))"
proof -
  have "sends_more m (snd (final (while_next body ts s m)))"
    using while_next_for_each [of body ts s m] sends_more_for_each [OF assms] by simp
  then show ?thesis
    by (simp add: final_put_sequencer Let_def case_prod_beta sends_more_def)
qed

lemma sends_more_handlers:
  "sends_more m (final (handle_incoming_packet L e pkt m))"
  "sends_more m (final (advance_peer e ts pid m))"
  "sends_more m (final (transmit L e b pid m))"
  "sends_more m (final (send_keepalives L e as m))"
proof -
  show "sends_more m (final (handle_incoming_packet L e pkt m))"
    by (simp add: handle_incoming_packet_def sends_more_drain split: option.splits)
  show "sends_more m (final (advance_peer e ts pid m))"
    by (simp add: advance_peer_def sends_more_drain split: option.splits sum.splits)
  show "sends_more m (final (send_keepalives L e as m))"
    by (simp add: send_keepalives_def sends_more_for_each split: option.splits)
  have "sends_more m m1 \<Longrightarrow> sends_more m (final (for_each (\<lambda>a. send_to_remotes e (f a)) as m1))"
    for m1 as and f :: "socket_addr \<Rightarrow> outgoing_udp_packet"
    using sends_more_trans sends_more_for_each [of "\<lambda>a. send_to_remotes e (f a)"] by simp
  moreover have "sends_more m (m\<lparr>cm_peer_list := pl\<rparr>)" for pl by (simp add: sends_more_def)
  ultimately show "sends_more m (final (transmit L e b pid m))"
    by (simp add: transmit_def Let_def split: option.splits sum.splits)
qed

lemma sends_more_handle_udp_packet: "sends_more m (final (handle_udp_packet L e raw m))"
proof -
  have keepalive: "sends_more m (final (handle_incoming_keepalive L e ka a m))" for ka a
  proof -
    have "sends_more m m1 \<Longrightarrow> sends_more m (final (send_keepalives L e as m1))" for m1 as
      using sends_more_trans sends_more_handlers(4) by blast
    then show ?thesis
      by (simp add: handle_incoming_keepalive_def handle_instant_keepalive_def Let_def case_prod_beta
          sends_more_def split: director_type.splits option.splits)
  qed
  have "sends_more m (final (chain r f))"
    if "sends_more m (final r)" and "\<And>m1. sends_more m1 (final (f m1))" for r f
    using that sends_more_trans by (cases r) fastforce+
  with keepalive show ?thesis
    by (simp add: handle_udp_packet_def sends_more_handlers split: option.splits messages.splits)
qed

lemma sends_more_run_turn: "sends_more m (final (run_turn L e ev m))"
proof -
  have "sends_more m (final (handle_sequencer_tick e m))"
    unfolding handle_sequencer_tick_def by (rule sends_more_for_each) (simp add: sends_more_handlers case_prod_beta)
  moreover have "sends_more m (final (handle_packet_from_local L e pkt m))" for pkt
    unfolding handle_packet_from_local_targets by (rule sends_more_for_each) (rule sends_more_handlers)
  moreover have "sends_more m (final (handle_maintenance_tick e m))"
    by (simp add: handle_maintenance_tick_def Let_def sends_more_def split: option.splits sum.splits)
  ultimately show ?thesis
    by (simp add: run_turn_def arc_get_mut_def unwrap_def select_branch_def sends_more_handle_udp_packet
        handle_keepalive_def sends_more_handlers split: cm_event.splits option.splits)
qed

section \<open>The invariant of a node\<close>

lemma turn_appends:
  assumes "run_turn L e ev m = Running m'"
  shows "packets_to_local m @ drop (length (packets_to_local m)) (packets_to_local m') = packets_to_local m'"
    and "udp_output_broadcast_to_remotes m @ drop (length (udp_output_broadcast_to_remotes m))
      (udp_output_broadcast_to_remotes m') = udp_output_broadcast_to_remotes m'"
  using sends_more_run_turn [of m L e ev] assms by (auto simp: sends_more_def prefix_def)

lemma device_read_keeps:
  "local_manager_turn (Device_Read answers tun True) lm = Some (Running lm') \<Longrightarrow> device lm' = device lm"
  by (auto simp: local_manager_turn_def Let_def split: option.splits sum.splits)

lemma poll_write_out: "poll_write buf answers = Inr (res, out) \<Longrightarrow> out = [] \<or> out = [buf]"
  by (induction buf answers rule: poll_write.induct)
    (auto split: sum.split_asm io_result.split_asm if_split_asm)

lemma local_write_out:
  assumes "local_write answers tun p loc = Some (Running d)"
  shows "kind d = kind loc \<and>
    (written d = written loc @ [p] \<and> p \<noteq> [] \<or> written d = written loc \<and> (p = [] \<or> is_layer2 loc))"
proof (cases "kind loc"; cases "p = []")
  fix dev assume Layer2_Device: "kind loc = Layer2_Device dev" and "p \<noteq> []"
  with assms obtain res out where "poll_write p answers = Inr (res, out)" and "d = loc\<lparr>written := written loc @ out\<rparr>"
    by (auto simp: local_write_def split: sum.split_asm poll.split_asm io_result.split_asm)
  with poll_write_out [of p answers res out] Layer2_Device \<open>p \<noteq> []\<close> show ?thesis by (auto simp: is_layer2_def)
next
  fix cfg assume "kind loc = Layer3_Device cfg" and "p \<noteq> []"
  with assms show ?thesis by (auto simp: local_write_def split: option.split_asm bool.split_asm)
qed (use assms in \<open>auto simp: local_write_def\<close>)

lemma manager_writes:
  assumes "local_manager_turn (To_Device (Some p) answers tun) lm = Some (Running lm')"
  obtains d where "local_write answers tun p (device lm) = Some (Running d)" and "lm' = lm\<lparr>device := d\<rparr>"
proof -
  from assms obtain r where r: "local_write answers tun p (device lm) = Some r"
    by (cases "local_write answers tun p (device lm)") (simp_all add: local_manager_turn_def)
  with assms show ?thesis by (cases r) (simp_all add: local_manager_turn_def that)
qed

lemma node_inv_cm_takes:
  assumes "node_inv n" and "cm_outbox n = []" and "take_event ev n = Some n1"
    and "run_turn L e ev (node_cm n) = Running cm'"
  shows "node_inv (after_turn cm' n1)"
proof -
  note frame = take_event_frame [OF assms(3)]
  have "list_all (\<lambda>r. length (unread r) \<le> channel_capacity) (map (broadcast outs) rs)" for outs rs
    by (auto simp: list_all_iff broadcast_def Let_def simp del: drop_append)
  moreover have "packets_to_local cm' = taken @ to_local n @
      drop (length (packets_to_local (node_cm n))) (packets_to_local cm')"
    if "packets_to_local (node_cm n) = taken @ to_local n @ cm_outbox n" for taken
    using turn_appends(1) [OF assms(4)] that assms(2) by simp
  moreover have "is_layer3 (after_turn cm' n1) = is_layer3 n"
    using frame by (simp add: is_layer3_def after_turn_def)
  ultimately show ?thesis
    using assms(1,2) frame unfolding node_inv_def by (auto simp: after_turn_def)
qed

lemma node_inv_act:
  assumes "node_inv n" and "node_act L z evs n n'"
  shows "node_inv n'"
  using assms(2)
proof cases
  case (cm_takes ev n1 e cm')
  with assms(1) show ?thesis using node_inv_cm_takes by blast
next
  case (lm_reads answers tun lm')
  then show ?thesis
    using assms(1) device_read_keeps [of answers tun "node_lm n" lm']
    by (simp add: node_inv_def is_layer3_def after_read_def)
next
  case (lm_writes p ps sends tunw lm')
  then obtain d where d: "local_write sends tunw p (device (node_lm n)) = Some (Running d)"
    and lm': "lm' = (node_lm n)\<lparr>device := d\<rparr>" by (elim manager_writes)
  obtain taken where taken: "packets_to_local (node_cm n) = (taken @ [p]) @ ps @ cm_outbox n"
    "subseq (written (device (node_lm n))) taken"
    "is_layer3 n \<longrightarrow> written (device (node_lm n)) = filter (\<lambda>p. p \<noteq> []) taken"
    using assms(1) lm_writes by (auto simp: node_inv_def)
  then have "subseq (written d) (taken @ [p])" and "is_layer3 n' \<longrightarrow> written d = filter (\<lambda>p. p \<noteq> []) (taken @ [p])"
    using local_write_out [OF d] lm_writes lm'
    by (auto simp: is_layer3_def is_layer2_def intro: list_emb_append_mono)
  with taken(1) show ?thesis
    using assms(1) lm_writes lm' by (auto simp: node_inv_def)
next
  case (remote_sends i r out outs res t')
  have "r \<in> set (node_remotes n)" using remote_sends(3,4) by auto
  then have "length (unread r) \<le> channel_capacity" using assms(1) by (simp add: node_inv_def list_all_iff)
  then have "list_all (\<lambda>r. length (unread r) \<le> channel_capacity)
      ((node_remotes n)[i := r\<lparr>rtask := t', unread := outs\<rparr>])"
    using assms(1) remote_sends(6) set_update_subset_insert [of "node_remotes n" i "r\<lparr>rtask := t', unread := outs\<rparr>"]
    by (auto simp: node_inv_def list_all_iff)
  with assms(1) remote_sends(2) show ?thesis by (simp add: node_inv_def is_layer3_def)
next
  case (remote_reads i r item t')
  have "r \<in> set (node_remotes n)" using remote_reads(3,4) by auto
  then have "list_all (\<lambda>r. length (unread r) \<le> channel_capacity) ((node_remotes n)[i := after_receive t' r])"
    using assms(1) set_update_subset_insert [of "node_remotes n" i "after_receive t' r"]
    by (auto simp: node_inv_def list_all_iff after_receive_def)
  with assms(1) remote_reads(2) show ?thesis by (simp add: node_inv_def is_layer3_def)
next
  case (remote_hands_over i r x xs)
  have "r \<in> set (node_remotes n)" using remote_hands_over(3,4) by auto
  then have "list_all (\<lambda>r. length (unread r) \<le> channel_capacity) ((node_remotes n)[i := r\<lparr>recv_outbox := xs\<rparr>])"
    using assms(1) set_update_subset_insert [of "node_remotes n" i "r\<lparr>recv_outbox := xs\<rparr>"]
    by (auto simp: node_inv_def list_all_iff)
  with assms(1) remote_hands_over(2,6) show ?thesis by (simp add: node_inv_def is_layer3_def)
qed (use assms(1) in \<open>auto simp: node_inv_def is_layer3_def\<close>)

definition started :: "node \<Rightarrow> bool" where
  "started n \<longleftrightarrow> (\<exists>ts mc. main_start ts mc = Inr n)"

lemma main_startE:
  assumes "main_start ts mc = Inr n"
  obtains logger settings tasks lm where "open_log mc = Inr logger" and "config mc = Some settings"
    and "remote_manager_new (machine_os mc) settings = Inr tasks"
    and "local_manager_new (machine_pcap mc) (machine_tun mc) settings = Inr lm"
    and "n = \<lparr>node_remotes = map (\<lambda>t. \<lparr>rtask = t, unread = [], recv_outbox = []\<rparr>) tasks,
      raw_udp = [], node_cm = connection_manager_new ts settings logger, cm_outbox = [], to_local = [],
      node_lm = lm, lm_outbox = [], from_local = []\<rparr>"
proof -
  obtain logger where lg: "open_log mc = Inr logger"
    using assms by (cases "open_log mc") (simp_all add: main_start_def)
  have rd: "config_readable mc" using assms lg by (simp add: main_start_def split: if_split_asm)
  obtain settings where st: "config mc = Some settings"
    using assms lg rd by (cases "config mc") (simp_all add: main_start_def)
  obtain tasks where tk: "remote_manager_new (machine_os mc) settings = Inr tasks"
    using assms lg rd st by (cases "remote_manager_new (machine_os mc) settings") (simp_all add: main_start_def)
  obtain lm where lm: "local_manager_new (machine_pcap mc) (machine_tun mc) settings = Inr lm"
    using assms lg rd st tk
    by (cases "local_manager_new (machine_pcap mc) (machine_tun mc) settings") (simp_all add: main_start_def)
  from assms lg rd st tk lm that show ?thesis by (simp add: main_start_def)
qed

lemma local_manager_new_empty:
  assumes "local_manager_new pc tb settings = Inr lm"
  shows "written (device lm) = [] \<and> tun_buf lm = [] \<and> packets_from_local lm = []"
proof -
  obtain loc where loc: "local_new pc tb settings = Inr loc"
    using assms by (cases "local_new pc tb settings") (simp_all add: local_manager_new_def)
  then have "written loc = []"
    by (cases "local_type settings")
      (auto simp: local_new_def split: sum.split_asm option.split_asm)
  with assms loc show ?thesis by (auto simp: local_manager_new_def)
qed

lemma node_inv_started: "started n \<Longrightarrow> node_inv n"
  unfolding started_def
  by (auto elim!: main_startE dest!: local_manager_new_empty
      simp: node_inv_def list_all_iff connection_manager_new_def)

interpretation nodes: invariant_system started "node_step L z" node_inv for L z
  by unfold_locales (auto intro: node_inv_started node_inv_act elim: node_stepE)

section \<open>Started nodes\<close>

text \<open>Nothing has gone to or come from any peer of a node that starts.\<close>

lemma seed_peers_known:
  "config_id ` set cs \<union> known_peers pl \<subseteq> known_peers (seed_peers ts cs pl)"
proof (induction cs arbitrary: ts pl)
  case (Cons c cs)
  let ?p = "\<lparr>connections = seed_connections (later (ts 0)) (addresses c) hm_new, tx_counter = 0,
    peer_sequencer = sequencer_new (from_millis 3) (ts 0 0)\<rparr>"
  let ?pl = "pl\<lparr>peers := hm_insert (config_id c) ?p (peers pl)\<rparr>"
  have "known_peers ?pl = insert (config_id c) (known_peers pl)"
    by (auto simp: known_peers_def hm.get_ins)
  moreover have "seed_peers ts (c # cs) pl = seed_peers (later ts) cs ?pl" by (simp add: Let_def)
  ultimately show ?case using Cons.IH [of ?pl "later ts"] by auto
qed simp

definition fresh_peer :: "peer \<Rightarrow> bool" where
  "fresh_peer peer \<longleftrightarrow> tx_counter peer = 0 \<and> (\<exists>now. peer_sequencer peer = sequencer_new (from_millis 3) now)"

lemma seed_peers_fresh:
  "hm_all (\<lambda>_. fresh_peer) (peers pl) \<Longrightarrow> hm_all (\<lambda>_. fresh_peer) (peers (seed_peers ts cs pl))"
proof (induction cs arbitrary: ts pl)
  case (Cons c cs)
  have "fresh_peer \<lparr>connections = cs, tx_counter = 0, peer_sequencer = sequencer_new (from_millis 3) now\<rparr>" for cs now
    by (auto simp: fresh_peer_def)
  with Cons show ?case by (simp add: Let_def hm_all_insert)
qed simp

lemma started_peer_new: "new_to a (cm_peer_list (connection_manager_new ts settings lg))"
proof (cases "hm_get (peers (peer_list_new ts (Some (config_peers settings)))) a")
  case None
  then have "a \<notin> known_peers (cm_peer_list (connection_manager_new ts settings lg))"
    by (auto simp: known_peers_def connection_manager_new_def)
  then show ?thesis by (simp add: new_to_def)
next
  case (Some peer)
  have "hm_all (\<lambda>_. fresh_peer) (peers (peer_list_new ts (Some (config_peers settings))))"
    using seed_peers_fresh by (auto simp: peer_list_new_def Let_def)
  from hm_allD [OF this Some] Some show ?thesis
    by (auto simp: new_to_def fresh_to_def fresh_peer_def get_peer_sequencer_def get_peer_tx_counter_def
        connection_manager_new_def)
qed

lemma configured_peer_fresh:
  assumes "a \<in> config_id ` set (config_peers settings)"
  shows "\<exists>now. get_peer_sequencer a (cm_peer_list (connection_manager_new ts settings lg)) =
      Some (sequencer_new (from_millis 3) now)"
proof -
  have "a \<in> known_peers (cm_peer_list (connection_manager_new ts settings lg))"
    using seed_peers_known [of "config_peers settings"] assms
    by (auto simp: peer_list_new_def Let_def connection_manager_new_def)
  with started_peer_new [of a ts settings lg] show ?thesis by (auto simp: new_to_def fresh_to_def)
qed

lemma node_at_new:
  assumes "0 \<le> t" and "\<And>j i. ts j i \<le> t"
  shows "node_at t (connection_manager_new ts settings lg)"
  using assms by (simp add: node_at_def cm_inv_new cm_stamped_def) (simp add: connection_manager_new_def peer_list_new_invs)

section \<open>A node of the examples\<close>

definition demo_machine :: machine where
  "demo_machine = \<lparr>args_debug = True, log_create_ok = True, log_header_ok = True, config_readable = True,
     config = Some (demo_client\<lparr>remotes := [UDP ''eth0'' None 10000 None]\<rparr>), machine_os = demo_os,
     machine_pcap = \<lparr>from_device_ok = (\<lambda>_. True), open_ok = True, setnonblock_ok = True, async_fd_ok = True\<rparr>,
     machine_tun = \<lparr>try_build = (\<lambda>_. True), info_enabled = True, mtu_ok = True, flags_ok = True,
       address_ok = True, destination_ok = True, broadcast_ok = True, netmask_ok = True\<rparr>\<rparr>"

definition demo_node :: node where
  "demo_node = projr (main_start (\<lambda>_ _. 0) demo_machine)"

lemma demo_node_starts: "main_start (\<lambda>_ _. 0) demo_machine = Inr demo_node"
proof -
  have "case main_start (\<lambda>_ _. 0) demo_machine of Inl _ \<Rightarrow> False | Inr _ \<Rightarrow> True" by code_simp
  then show ?thesis unfolding demo_node_def by (simp split: sum.split_asm)
qed

end
