(* ===== verification/Deadlock.thy ===== *)
theory Deadlock
  imports Node
begin

text \<open>
  The two managers around the bounded channels to and from the local device can wait for each other: a
  state in which neither ever does anything again, reachable on every layer 3 node with a configured
  peer and a plain first remote.
\<close>

section \<open>Deadlock\<close>

text \<open>The connection manager waits for room towards the local side while the local manager waits for
  room towards the connection manager.\<close>

definition deadlocked :: "node \<Rightarrow> bool" where
  "deadlocked n \<longleftrightarrow> cm_outbox n \<noteq> [] \<and> length (to_local n) = channel_capacity \<and>
     lm_outbox n \<noteq> [] \<and> length (from_local n) = channel_capacity"

lemma deadlocked_step:
  assumes "deadlocked n" and "node_step L z n n'"
  shows "deadlocked n' \<and> node_cm n' = node_cm n \<and> node_lm n' = node_lm n"
proof -
  obtain evs where "node_act L z evs n n'" using assms(2) by (rule node_stepE)
  then show ?thesis using assms(1) by cases (auto simp: deadlocked_def)
qed

lemma deadlocked_forever:
  assumes "(node_step L z)\<^sup>*\<^sup>* n n'" and "deadlocked n"
  shows "deadlocked n' \<and> node_cm n' = node_cm n \<and> node_lm n' = node_lm n"
  using assms by (induction rule: rtranclp_induct) (auto dest: deadlocked_step)

subsection \<open>A way into the deadlock\<close>

text \<open>A node that can take one more packet of peer \<open>a\<close> from its first remote, a plain one.\<close>

definition can_receive :: "system_time \<Rightarrow> u16 \<Rightarrow> node \<Rightarrow> bool" where
  "can_receive t a n \<longleftrightarrow> node_at t (node_cm n) \<and> raw_udp n = [] \<and>
     (\<exists>s. get_peer_sequencer a (cm_peer_list (node_cm n)) = Some s \<and> get_queue_length s = 0) \<and>
     (\<exists>r rs u. node_remotes n = r # rs \<and> recv_outbox r = [] \<and> task_remote (rtask r) = Udp_Remote u)"

text \<open>Two nodes that differ in nothing the local manager can see or do.\<close>

definition same_local_side :: "node \<Rightarrow> node \<Rightarrow> bool" where
  "same_local_side n n' \<longleftrightarrow> node_lm n' = node_lm n \<and> lm_outbox n' = lm_outbox n \<and> from_local n' = from_local n"

lemma arrival_turn:
  assumes "serializes L" and "decodes L" and "node_at t m"
    and s: "get_peer_sequencer a (cm_peer_list m) = Some s" "get_queue_length s = 0"
  obtains raw m' where "run_turn L (demo_env t) (Raw_Udp (Some raw)) m = Running m'"
    and "receiver_interface raw = ifc" and "node_at t m'" and "packets_to_local m' = packets_to_local m @ [[]]"
    and "\<exists>s'. get_peer_sequencer a (cm_peer_list m') = Some s' \<and> get_queue_length s' = 0"
proof -
  define p where "p = \<lparr>seq = next_seq s, peer_id = a, bytes = []\<rparr>"
  obtain b where "bincode_serialize L (Packet_Msg p) = Some b" using assms(1) by (rule serializesE)
  with assms(2) have d: "bincode_deserialize L b = Some (Packet_Msg p)" by (simp add: decodes_def)
  let ?raw = "\<lparr>receiver_interface = ifc, received_from = SocketV4 0 0, raw_bytes = b\<rparr>"
  obtain m' where m': "run_turn L (demo_env t) (Raw_Udp (Some ?raw)) m = Running m'" and "node_at t m'"
    and sm: "turn_summary L (demo_env t) (Raw_Udp (Some ?raw)) m m'"
    using turn_ends [OF assms(1,3) sane_demo_env [OF order_refl order_refl], of "Raw_Udp (Some ?raw)"] by auto
  have step: "fst (seq_step (Arrive p ts) s) = [p]" "get_queue_length (snd (seq_step (Arrive p ts) s)) = 0" for ts
    using seq_step_in_order [OF s(2), of p ts] by (simp_all add: p_def del: seq_step.simps)
  have "turn_out L (demo_env t) (Raw_Udp (Some ?raw)) m = [p]"
    using s(1) d step by (simp add: turn_out_def p_def del: seq_step.simps)
  moreover have "peer_events L a (demo_env t) (Raw_Udp (Some ?raw)) m = [Arrive p (clk (demo_env t) 1)]"
    using d s(1) by (simp add: peer_events_def arrivals_in_def p_def)
  ultimately have "packets_to_local m' = packets_to_local m @ [[]]"
    and "\<exists>s'. get_peer_sequencer a (cm_peer_list m') = Some s' \<and> get_queue_length s' = 0"
    using sm s(1) step by (auto simp: turn_summary_def p_def Let_def case_prod_beta simp del: seq_step.simps)
  with m' \<open>node_at t m'\<close> show ?thesis by (intro that [of ?raw m']) simp_all
qed

lemma udp_task_reads:
  assumes "task_remote t = Udp_Remote u" and "receiver_interface raw = interface u"
  shows "remote_task_turn z (Incoming (Some (Received (raw_bytes raw) (received_from raw))) True) t =
    Running (t\<lparr>to_manager := to_manager t @ [raw]\<rparr>)"
  using assms by (cases raw) (simp add: remote_task_turn_def remote_read_def udp_read_def)

text \<open>The datagram reaches the remote, the channel and the connection manager, which has one packet to
  hand on.\<close>

lemma receive_one:
  assumes "serializes L" and "decodes L" and "can_receive t a n" and "cm_outbox n = []"
  shows "\<exists>n' p. (node_step L z)\<^sup>*\<^sup>* n n' \<and> cm_outbox n' = [p] \<and> can_receive t a n' \<and>
    to_local n' = to_local n \<and> same_local_side n n'"
proof -
  obtain s r rs u where at: "node_at t (node_cm n)" and raw_q: "raw_udp n = []"
    and s: "get_peer_sequencer a (cm_peer_list (node_cm n)) = Some s" "get_queue_length s = 0"
    and r: "node_remotes n = r # rs" "recv_outbox r = []" "task_remote (rtask r) = Udp_Remote u"
    using assms(3) by (auto simp: can_receive_def)
  obtain raw m' where turn: "run_turn L (demo_env t) (Raw_Udp (Some raw)) (node_cm n) = Running m'"
    and ifc: "receiver_interface raw = interface u" and at': "node_at t m'"
    and out: "packets_to_local m' = packets_to_local (node_cm n) @ [[]]"
    and s': "\<exists>s'. get_peer_sequencer a (cm_peer_list m') = Some s' \<and> get_queue_length s' = 0"
    using arrival_turn [OF assms(1,2) at s] by metis
  let ?t = "(rtask r)\<lparr>to_manager := to_manager (rtask r) @ [raw]\<rparr>"
  let ?n1 = "n\<lparr>node_remotes := (node_remotes n)[0 := after_receive ?t r]\<rparr>"
  let ?r2 = "(after_receive ?t r)\<lparr>recv_outbox := []\<rparr>"
  let ?n2 = "?n1\<lparr>node_remotes := (node_remotes ?n1)[0 := ?r2], raw_udp := raw_udp ?n1 @ [raw]\<rparr>"
  let ?n3 = "after_turn m' (?n2\<lparr>raw_udp := []\<rparr>)"
  have "node_step L z n ?n1"
    by (rule node_act.remote_reads [THEN node_stepI, OF _ _ r(2) udp_task_reads [OF r(3) ifc]]) (simp_all add: r(1))
  moreover have "node_step L z ?n1 ?n2"
    by (rule node_act.remote_hands_over [THEN node_stepI, of 0 _ "after_receive ?t r" raw "[]"])
      (simp_all add: r(1) raw_q after_receive_def channel_capacity_def)
  moreover have "node_step L z ?n2 ?n3"
    by (rule node_act.cm_takes [THEN node_stepI, of _ "Raw_Udp (Some raw)" _ _ "demo_env t"])
      (simp_all add: assms(4) turn take_event_def raw_q)
  ultimately have "(node_step L z)\<^sup>*\<^sup>* n ?n3" by (meson converse_rtranclp_into_rtranclp rtranclp.rtrancl_refl)
  moreover have "cm_outbox ?n3 = [[]]" by (simp add: after_turn_def out)
  moreover have "can_receive t a ?n3"
    using at' s' r by (simp add: can_receive_def after_turn_def broadcast_def after_receive_def)
  moreover have "to_local ?n3 = to_local n" and "same_local_side n ?n3"
    by (simp_all add: same_local_side_def after_turn_def)
  ultimately show ?thesis by blast
qed

lemma same_local_side_trans: "same_local_side a b \<Longrightarrow> same_local_side b c \<Longrightarrow> same_local_side a c"
  by (simp add: same_local_side_def)

text \<open>Repeated, while the local manager does not run, this fills the channel to the local side.\<close>

lemma fill_to_local:
  assumes "serializes L" and "decodes L" and "can_receive t a n" and "cm_outbox n = []"
    and "length (to_local n) + k \<le> channel_capacity"
  shows "\<exists>n'. (node_step L z)\<^sup>*\<^sup>* n n' \<and> cm_outbox n' = [] \<and> can_receive t a n' \<and>
    length (to_local n') = length (to_local n) + k \<and> same_local_side n n'"
  using assms(5)
proof (induction k)
  case 0
  show ?case by (rule exI [of _ n]) (simp add: assms(3,4) same_local_side_def)
next
  case (Suc k)
  then obtain n1 where n1: "(node_step L z)\<^sup>*\<^sup>* n n1" "cm_outbox n1 = []" "can_receive t a n1"
    "length (to_local n1) = length (to_local n) + k" "same_local_side n n1" by auto
  obtain n2 p where n2: "(node_step L z)\<^sup>*\<^sup>* n1 n2" "cm_outbox n2 = [p]" "can_receive t a n2"
    "to_local n2 = to_local n1" "same_local_side n1 n2"
    using receive_one [OF assms(1,2) n1(3,2)] by blast
  let ?n3 = "n2\<lparr>cm_outbox := [], to_local := to_local n2 @ [p]\<rparr>"
  have "node_step L z n2 ?n3"
    using n2(2,4) n1(4) Suc.prems by (intro node_act.cm_sends [THEN node_stepI]) simp_all
  with n1(1) n2(1) have "(node_step L z)\<^sup>*\<^sup>* n ?n3" by (meson rtranclp.rtrancl_into_rtrancl rtranclp_trans)
  moreover have "can_receive t a ?n3" using n2(3) by (simp add: can_receive_def)
  moreover have "same_local_side n ?n3"
    using n1(5) n2(5) by (simp add: same_local_side_def)
  ultimately show ?case using n1(4) n2(4) by (intro exI [of _ ?n3]) simp
qed

text \<open>The other direction: the local manager reads frames and fills the channel to the connection
  manager.\<close>

definition can_read :: "node \<Rightarrow> bool" where
  "can_read n \<longleftrightarrow> tun_buf (node_lm n) = [] \<and> \<not> is_layer2 (device (node_lm n))"

definition same_remote_side :: "node \<Rightarrow> node \<Rightarrow> bool" where
  "same_remote_side n n' \<longleftrightarrow> cm_outbox n' = cm_outbox n \<and> to_local n' = to_local n"

lemma read_one:
  assumes "can_read n" and "lm_outbox n = []"
  shows "\<exists>n' f. node_step L z n n' \<and> lm_outbox n' = [f] \<and> can_read n' \<and>
    from_local n' = from_local n \<and> same_remote_side n n'"
proof -
  obtain cfg where k: "kind (device (node_lm n)) = Layer3_Device cfg" and buf: "tun_buf (node_lm n) = []"
    using assms(1) by (cases "kind (device (node_lm n))") (simp_all add: can_read_def is_layer2_def)
  let ?lm = "(node_lm n)\<lparr>packets_from_local := packets_from_local (node_lm n) @ [[0]], tun_buf := []\<rparr>"
  have "local_manager_turn (Device_Read [] (Some (Io_Ok [0])) True) (node_lm n) = Some (Running ?lm)"
    by (simp add: local_manager_turn_def local_read_def k buf Let_def)
  from node_act.lm_reads [THEN node_stepI, OF assms(2) this] have "node_step L z n (after_read ?lm n)" .
  then show ?thesis
    using assms(1)
    by (intro exI [of _ "after_read ?lm n"] exI [of _ "[0]"])
      (simp add: after_read_def can_read_def same_remote_side_def)
qed

lemma fill_from_local:
  assumes "can_read n" and "lm_outbox n = []" and "length (from_local n) + k \<le> channel_capacity"
  shows "\<exists>n'. (node_step L z)\<^sup>*\<^sup>* n n' \<and> lm_outbox n' = [] \<and> can_read n' \<and>
    length (from_local n') = length (from_local n) + k \<and> same_remote_side n n'"
  using assms(3)
proof (induction k)
  case 0
  show ?case by (rule exI [of _ n]) (simp add: assms same_remote_side_def)
next
  case (Suc k)
  then obtain n1 where n1: "(node_step L z)\<^sup>*\<^sup>* n n1" "lm_outbox n1 = []" "can_read n1"
    "length (from_local n1) = length (from_local n) + k" "same_remote_side n n1" by auto
  obtain n2 f where n2: "node_step L z n1 n2" "lm_outbox n2 = [f]" "can_read n2"
    "from_local n2 = from_local n1" "same_remote_side n1 n2"
    using read_one [OF n1(3,2)] by blast
  let ?n3 = "n2\<lparr>lm_outbox := [], from_local := from_local n2 @ [f]\<rparr>"
  have "node_step L z n2 ?n3"
    using n2(2,4) n1(4) Suc.prems by (intro node_act.lm_sends [THEN node_stepI]) simp_all
  with n1(1) n2(1) have "(node_step L z)\<^sup>*\<^sup>* n ?n3" by (meson rtranclp.rtrancl_into_rtrancl)
  moreover have "can_read ?n3" and "same_remote_side n ?n3"
    using n2(3,5) n1(5) by (simp_all add: can_read_def same_remote_side_def)
  ultimately show ?case using n1(4) n2(4) by (intro exI [of _ ?n3]) simp
qed

lemma deadlock_reachable:
  assumes "serializes L" and "decodes L" and "can_receive t a n" and "can_read n"
    and "cm_outbox n = []" and "to_local n = []" and "lm_outbox n = []" and "from_local n = []"
  shows "\<exists>n'. (node_step L z)\<^sup>*\<^sup>* n n' \<and> deadlocked n'"
proof -
  obtain n1 where n1: "(node_step L z)\<^sup>*\<^sup>* n n1" "cm_outbox n1 = []" "can_receive t a n1"
    "length (to_local n1) = channel_capacity" "same_local_side n n1"
    using fill_to_local [OF assms(1-3,5), of channel_capacity] assms(6) by auto
  obtain n2 p where n2: "(node_step L z)\<^sup>*\<^sup>* n1 n2" "cm_outbox n2 = [p]" "to_local n2 = to_local n1"
    "same_local_side n1 n2"
    using receive_one [OF assms(1,2) n1(3,2)] by blast
  have "can_read n2" "lm_outbox n2 = []" "from_local n2 = []"
    using n1(5) n2(4) assms(4,7,8) by (simp_all add: same_local_side_def can_read_def)
  then obtain n3 where n3: "(node_step L z)\<^sup>*\<^sup>* n2 n3" "lm_outbox n3 = []" "can_read n3"
    "length (from_local n3) = channel_capacity" "same_remote_side n2 n3"
    using fill_from_local [of n2 channel_capacity] by auto
  obtain n4 f where n4: "node_step L z n3 n4" "lm_outbox n4 = [f]" "from_local n4 = from_local n3"
    "same_remote_side n3 n4"
    using read_one [OF n3(3,2)] by blast
  have "(node_step L z)\<^sup>*\<^sup>* n n4"
    using n1(1) n2(1) n3(1) n4(1) by (meson rtranclp.rtrancl_into_rtrancl rtranclp_trans)
  moreover have "deadlocked n4"
    using n1(4) n2(2,3) n3(4,5) n4(2-4) by (simp add: deadlocked_def same_remote_side_def)
  ultimately show ?thesis by blast
qed

section \<open>Started nodes\<close>

lemma started_can_receive:
  assumes "main_start ts mc = Inr n" and "config mc = Some settings" and "0 \<le> t" and "\<And>j i. ts j i \<le> t"
    and "remotes settings = UDP ifc addr port bd # devs" and "local_type settings = Layer3_Local tun_addr"
    and "a \<in> config_id ` set (config_peers settings)"
  shows "can_receive t a n" and "can_read n"
proof -
  obtain logger tasks lm where tk: "remote_manager_new (machine_os mc) settings = Inr tasks"
    and lm: "local_manager_new (machine_pcap mc) (machine_tun mc) settings = Inr lm"
    and n: "n = \<lparr>node_remotes = map (\<lambda>t. \<lparr>rtask = t, unread = [], recv_outbox = []\<rparr>) tasks,
      raw_udp = [], node_cm = connection_manager_new ts settings logger, cm_outbox = [], to_local = [],
      node_lm = lm, lm_outbox = [], from_local = []\<rparr>"
    using assms(1,2) by (auto elim: main_startE)
  obtain r where r: "make_remote (machine_os mc) (UDP ifc addr port bd) = Inr r" and hd: "\<exists>ts. tasks = \<lparr>task_remote = r, to_manager = []\<rparr> # ts"
    using tk assms(5) by (auto simp: remote_manager_new_def split: sum.split_asm)
  then have "\<exists>u. r = Udp_Remote u"
    by (auto simp: make_remote_def map_sum_def split: option.split_asm sum.split_asm)
  with hd show "can_receive t a n"
    using node_at_new [OF assms(3,4)] configured_peer_fresh [OF assms(7), of ts logger]
    by (auto simp: can_receive_def n get_queue_length_def bt_len_def)
  have "\<not> is_layer2 (device lm)"
    using lm assms(6)
    by (auto simp: local_manager_new_def local_new_def is_layer2_def split: sum.split_asm)
  with local_manager_new_empty [OF lm] show "can_read n" by (simp add: can_read_def n)
qed

section \<open>Properties\<close>

text \<open>C17. A node can lock up for good. Some interleaving of the tasks brings a layer 3 node with a plain
  first remote and a configured peer into a state in which the connection manager waits for room in
  the channel to the local manager, while the local manager waits for room in the channel to the
  connection manager; from then on neither task ever does anything again.\<close>

theorem node_can_deadlock:
  assumes "serializes L" and "decodes L" and "main_start ts mc = Inr n" and "config mc = Some settings"
    and "0 \<le> t" and "\<And>j i. ts j i \<le> t"
    and "remotes settings = UDP ifc addr port bd # devs" and "local_type settings = Layer3_Local tun_addr"
    and "a \<in> config_id ` set (config_peers settings)"
  shows "\<exists>n'. (node_step L z)\<^sup>*\<^sup>* n n' \<and> deadlocked n' \<and>
    (\<forall>n''. (node_step L z)\<^sup>*\<^sup>* n' n'' \<longrightarrow> deadlocked n'' \<and> node_cm n'' = node_cm n' \<and> node_lm n'' = node_lm n')"
proof -
  have "cm_outbox n = []" "to_local n = []" "lm_outbox n = []" "from_local n = []"
    using assms(3) by (auto elim: main_startE)
  with started_can_receive [OF assms(3-9)] obtain n' where "(node_step L z)\<^sup>*\<^sup>* n n'" and "deadlocked n'"
    using deadlock_reachable [OF assms(1,2)] by blast
  with deadlocked_forever show ?thesis by blast
qed

theorem node_can_deadlock_witness:
  "\<exists>n'. (node_step demo_libs demo_lz4)\<^sup>*\<^sup>* demo_node n' \<and> deadlocked n'"
proof -
  let ?settings = "demo_client\<lparr>remotes := [UDP ''eth0'' None 10000 None]\<rparr>"
  have h: "config demo_machine = Some ?settings" by (simp add: demo_machine_def)
  have "remotes ?settings = [UDP ''eth0'' None 10000 None]" "local_type ?settings = Layer3_Local 0x0A000001"
    "2 \<in> config_id ` set (config_peers ?settings)"
    by (simp_all add: demo_client_def)
  from node_can_deadlock [OF serializes_demo decodes_demo demo_node_starts h order_refl order_refl this] show ?thesis
    by blast
qed

end
