(* ===== verification/Shutdown.thy ===== *)
theory Shutdown
  imports Deadlock
begin

text \<open>
  How a node ends. A task that panics drops its ends of the channels; a task that then finds one of its
  channels closed panics in turn; \<open>main\<close> waits for its tasks and ends the process when the one it
  waits for has panicked.
\<close>

section \<open>Panics spread over closed channels\<close>

record tasks =
  remote_states :: "task_state list"
  cm_state :: task_state
  lm_state :: task_state

text \<open>
  The connection manager owns the only sender of the broadcast channel and of \<open>packets_to_local\<close>; the
  local manager owns the only sender of \<open>packets_from_local\<close>; the remotes share those of the channel
  of received datagrams. (\<open>main\<close> keeps a receiver of the broadcast channel, so that sending
  into it never fails.)
\<close>

inductive spreads :: "tasks \<Rightarrow> tasks \<Rightarrow> bool" where
  broadcast_closed: "cm_state s = Task_Panicked \<Longrightarrow> i < length (remote_states s) \<Longrightarrow>
    remote_states s ! i = Task_Running \<Longrightarrow>
    spreads s (s\<lparr>remote_states := (remote_states s)[i := Task_Panicked]\<rparr>)"
| to_local_closed: "cm_state s = Task_Panicked \<Longrightarrow> lm_state s = Task_Running \<Longrightarrow>
    spreads s (s\<lparr>lm_state := Task_Panicked\<rparr>)"
| from_local_closed: "lm_state s = Task_Panicked \<Longrightarrow> cm_state s = Task_Running \<Longrightarrow>
    spreads s (s\<lparr>cm_state := Task_Panicked\<rparr>)"
| raw_udp_closed: "set (remote_states s) \<subseteq> {Task_Panicked} \<Longrightarrow> cm_state s = Task_Running \<Longrightarrow>
    spreads s (s\<lparr>cm_state := Task_Panicked\<rparr>)"

inductive_cases spreadsE: "spreads s s'"

text \<open>The rules are those of the tasks: a closed channel ends each task that receives from it: the connection manager when its remotes
  or the local manager are gone, the local manager when the connection manager is gone, and every
  remote when the broadcast channel is closed.\<close>

lemma closed_channels_panic:
  "\<not> is_running (run_turn L e (Raw_Udp None) m) \<and>
   \<not> is_running (run_turn L e (From_Local None) m) \<and>
   (\<exists>p. local_manager_turn (To_Device None answers tun) lm = Some (Panicked p lm)) \<and>
   \<not> is_running (remote_task_turn z (Outgoing (Inl Closed) res) t)"
  by (simp add: run_turn_def arc_get_mut_def unwrap_def select_branch_def local_manager_turn_def remote_task_turn_def)

text \<open>The task that runs \<open>RemoteManager::run\<close>, and what \<open>main\<close> makes of the three.\<close>

definition remote_manager_state :: "tasks \<Rightarrow> task_state" where
  "remote_manager_state s =
     (case remote_manager_run (remote_states s) of
        Join_Waiting \<Rightarrow> Task_Running
      | Join_Done \<Rightarrow> Task_Finished
      | Join_Panicked \<Rightarrow> Task_Panicked)"

definition main_result :: "tasks \<Rightarrow> joined" where
  "main_result s = main_waits (remote_manager_state s) (cm_state s) (lm_state s)"

text \<open>None of the tasks ever finishes: each is a loop without an exit.\<close>

definition endless :: "tasks \<Rightarrow> bool" where
  "endless s \<longleftrightarrow> Task_Finished \<notin> set (remote_states s) \<union> {cm_state s, lm_state s}"

definition running_tasks :: "tasks \<Rightarrow> nat" where
  "running_tasks s = length (filter (\<lambda>t. t = Task_Running) (remote_states s @ [cm_state s, lm_state s]))"

lemma endless_spreads: "endless s \<Longrightarrow> spreads s s' \<Longrightarrow> endless s'"
  by (erule spreadsE) (auto simp: endless_def dest!: subsetD [OF set_update_subset_insert])

lemma filter_update_less:
  "i < length xs \<Longrightarrow> P (xs ! i) \<Longrightarrow> \<not> P y \<Longrightarrow> length (filter P (xs[i := y])) < length (filter P xs)"
proof (induction xs arbitrary: i)
  case (Cons x xs)
  then show ?case by (cases i) auto
qed simp

lemma spreads_decreases: "spreads s s' \<Longrightarrow> running_tasks s' < running_tasks s"
  by (erule spreadsE) (auto simp: running_tasks_def filter_update_less)

lemma spreads_monotone:
  assumes "spreads\<^sup>*\<^sup>* s s'"
  shows "cm_state s = Task_Panicked \<longrightarrow> cm_state s' = Task_Panicked"
    and "lm_state s = Task_Panicked \<longrightarrow> lm_state s' = Task_Panicked"
    and "i < length (remote_states s) \<longrightarrow> remote_states s ! i = Task_Panicked \<longrightarrow> remote_states s' ! i = Task_Panicked"
    and "length (remote_states s') = length (remote_states s)"
  using assms by (induction rule: rtranclp_induct) (auto elim!: spreadsE simp: nth_list_update)

lemma main_result_Panicked_iff:
  assumes "endless s" and "remote_states s \<noteq> []"
  shows "main_result s = (if hd (remote_states s) = Task_Panicked then Join_Panicked else Join_Waiting)"
  using assms
  by (cases "remote_states s" rule: await_tasks.cases)
    (auto simp: main_result_def main_waits_def remote_manager_state_def remote_manager_run_def endless_def)

lemma quiet_all_panicked:
  assumes "endless s" and "\<nexists>s'. spreads s s'" and "cm_state s = Task_Panicked \<or> lm_state s = Task_Panicked"
  shows "set (remote_states s) \<subseteq> {Task_Panicked}"
proof -
  have cm: "cm_state s = Task_Panicked"
  proof (rule ccontr)
    assume "cm_state s \<noteq> Task_Panicked"
    then have "cm_state s = Task_Running" using assms(1) by (cases "cm_state s") (auto simp: endless_def)
    with assms(2,3) from_local_closed [of s] show False by auto
  qed
  have "t = Task_Panicked" if t: "t \<in> set (remote_states s)" for t
  proof -
    obtain i where i: "i < length (remote_states s)" "remote_states s ! i = t"
      using t by (auto simp: in_set_conv_nth)
    have "t \<noteq> Task_Running" using broadcast_closed [OF cm i(1)] i(2) assms(2) by auto
    moreover have "t \<noteq> Task_Finished" using t assms(1) by (auto simp: endless_def)
    ultimately show ?thesis by (cases t) simp_all
  qed
  then show ?thesis by auto
qed

lemma spreads_come_to_rest: "\<exists>s'. spreads\<^sup>*\<^sup>* s s' \<and> (\<nexists>s''. spreads s' s'')"
proof (induction "running_tasks s" arbitrary: s rule: less_induct)
  case less
  show ?case
  proof (cases "\<exists>s1. spreads s s1")
    case True
    then obtain s1 where s1: "spreads s s1" by blast
    from less [OF spreads_decreases [OF s1]] s1 show ?thesis
      by (meson converse_rtranclp_into_rtranclp)
  qed blast
qed

lemma main_at_rest:
  assumes "endless s" and "remote_states s \<noteq> []" and run: "spreads\<^sup>*\<^sup>* s s'" and rest: "\<nexists>s''. spreads s' s''"
  shows "main_result s' = Join_Panicked \<longleftrightarrow>
    cm_state s = Task_Panicked \<or> lm_state s = Task_Panicked \<or> hd (remote_states s) = Task_Panicked"
    (is "_ \<longleftrightarrow> ?bad")
proof -
  have e': "endless s'" using run assms(1) by (induction rule: rtranclp_induct) (auto intro: endless_spreads)
  have ne: "remote_states s' \<noteq> []" using spreads_monotone(4) [OF run] assms(2) by auto
  show ?thesis
  proof (cases ?bad)
    case True
    then have "hd (remote_states s') = Task_Panicked"
    proof (elim disjE)
      assume "hd (remote_states s) = Task_Panicked"
      then show ?thesis
        using spreads_monotone(3) [OF run, of 0] assms(2) ne by (simp add: hd_conv_nth)
    qed (use spreads_monotone(1,2) [OF run] quiet_all_panicked [OF e' rest] ne in \<open>auto dest: hd_in_set\<close>)
    with True show ?thesis by (simp add: main_result_Panicked_iff [OF e' ne])
  next
    case False
    then have "\<not> spreads s x" for x
      using assms(2) by (auto elim!: spreadsE dest: hd_in_set)
    then have "s' = s" using run by (auto elim: converse_rtranclpE)
    with False show ?thesis by (simp add: main_result_Panicked_iff [OF assms(1,2)])
  qed
qed

section \<open>Properties\<close>

text \<open>C18. When a node ends. The spreading of panics over closed channels always comes to rest. When it
  has, the process has ended exactly if the panic began in the connection manager, the local
  manager or the first remote; a panic of any other remote is never noticed and the node goes on
  without it.\<close>

theorem node_ends_iff:
  assumes "endless s" and "remote_states s \<noteq> []"
  shows "(\<exists>s'. spreads\<^sup>*\<^sup>* s s' \<and> (\<nexists>s''. spreads s' s'')) \<and>
    (\<forall>s'. spreads\<^sup>*\<^sup>* s s' \<longrightarrow> (\<nexists>s''. spreads s' s'') \<longrightarrow>
      (main_result s' = Join_Panicked \<longleftrightarrow>
        cm_state s = Task_Panicked \<or> lm_state s = Task_Panicked \<or> hd (remote_states s) = Task_Panicked))"
  using spreads_come_to_rest main_at_rest [OF assms] by blast

theorem node_ends_iff_witness:
  "main_result \<lparr>remote_states = [Task_Running, Task_Panicked], cm_state = Task_Running, lm_state = Task_Running\<rparr> \<noteq> Join_Panicked"
proof -
  let ?s = "\<lparr>remote_states = [Task_Running, Task_Panicked], cm_state = Task_Running, lm_state = Task_Running\<rparr>"
  have h: "endless ?s" "remote_states ?s \<noteq> []" by (simp_all add: endless_def)
  have quiet: "\<nexists>s'. spreads ?s s'" by (auto elim!: spreadsE)
  have "main_result ?s = Join_Panicked \<longleftrightarrow>
      cm_state ?s = Task_Panicked \<or> lm_state ?s = Task_Panicked \<or> hd (remote_states ?s) = Task_Panicked"
    using conjunct2 [OF node_ends_iff [OF h], rule_format, OF rtranclp.rtrancl_refl] quiet by blast
  then show ?thesis by simp
qed

end
