(* ===== verification/Node_Runs.thy ===== *)
theory Node_Runs
  imports Node
begin

text \<open>
  Runs of a node: the steps of all tasks in some order, with what the node gets from outside in them.
  The runs project to the loop of the connection manager, and between that and the outside messages
  are moved and neither altered nor made up: from the device and the remotes to the manager without
  loss, from the manager to the device up to what the device skips, and from the manager to the wire of
  every remote up to what the broadcast channel and the sockets drop. The scheduler at the end executes
  runs.
\<close>

section \<open>Runs\<close>

inductive node_runs :: "libs \<Rightarrow> lz4 \<Rightarrow> node \<Rightarrow> node_event list \<Rightarrow> node \<Rightarrow> bool" for L z n where
  begin_run: "node_runs L z n [] n"
| step_run: "node_runs L z n evs n1 \<Longrightarrow> node_act L z us n1 n2 \<Longrightarrow> node_runs L z n (evs @ us) n2"

lemma node_runs_reachable: "node_runs L z n evs n' \<Longrightarrow> started n \<Longrightarrow> reachable started (node_step L z) n'"
  by (induction rule: node_runs.induct) (auto intro: reachable.intros node_stepI)

text \<open>The turns of the connection manager, the frames that the local device gave, and the datagrams
  that a remote got, as it reads them.\<close>

fun event_turns :: "node_event \<Rightarrow> turns" where
  "event_turns (Manager_Turn e ev) = [(e, ev)]"
| "event_turns _ = []"

fun event_frames :: "bool \<Rightarrow> node_event \<Rightarrow> byte_vec list" where
  "event_frames layer2 (Device_Gave answers tun) = frame_read layer2 (Device_Read answers tun True)"
| "event_frames layer2 _ = []"

fun event_read :: "lz4 \<Rightarrow> nat \<Rightarrow> dyn_remote \<Rightarrow> node_event \<Rightarrow> incoming_unparsed_packet list" where
  "event_read z j r (Remote_Got i item) = (if i = j then manager_input z r (Incoming item True) else [])"
| "event_read z j r _ = []"

definition turns_of :: "node_event list \<Rightarrow> turns" where
  "turns_of evs = concat (map event_turns evs)"

definition frames_given :: "bool \<Rightarrow> node_event list \<Rightarrow> byte_vec list" where
  "frames_given layer2 evs = concat (map (event_frames layer2) evs)"

definition datagrams_read :: "lz4 \<Rightarrow> nat \<Rightarrow> dyn_remote \<Rightarrow> node_event list \<Rightarrow> incoming_unparsed_packet list" where
  "datagrams_read z j r evs = concat (map (event_read z j r) evs)"

lemma event_lists [simp]:
  "turns_of [] = []" "turns_of (evs @ us) = turns_of evs @ turns_of us"
  "frames_given l [] = []" "frames_given l (evs @ us) = frames_given l evs @ frames_given l us"
  "datagrams_read z j r [] = []" "datagrams_read z j r (evs @ us) = datagrams_read z j r evs @ datagrams_read z j r us"
  "turns_of [ev] = event_turns ev" "frames_given l [ev] = event_frames l ev" "datagrams_read z j r [ev] = event_read z j r ev"
  by (simp_all add: turns_of_def frames_given_def datagrams_read_def)

text \<open>The datagrams the remotes have handed on, and those still on their way into the channel.\<close>

definition received :: "node \<Rightarrow> incoming_unparsed_packet list" where
  "received n = concat (map (\<lambda>r. to_manager (rtask r)) (node_remotes n))"

definition handing_over :: "node \<Rightarrow> incoming_unparsed_packet list" where
  "handing_over n = concat (map recv_outbox (node_remotes n))"

text \<open>What the connection manager takes from its two channels in a run.\<close>

definition datagrams_of :: "turns \<Rightarrow> incoming_unparsed_packet list" where
  "datagrams_of turns = concat (map (\<lambda>(e, ev). case ev of Raw_Udp (Some raw) \<Rightarrow> [raw] | _ \<Rightarrow> []) turns)"

definition frames_of :: "turns \<Rightarrow> byte_vec list" where
  "frames_of turns = concat (map (\<lambda>(e, ev). case ev of From_Local (Some pkt) \<Rightarrow> [pkt] | _ \<Rightarrow> []) turns)"

lemma contents_append [simp]:
  "datagrams_of (ts @ us) = datagrams_of ts @ datagrams_of us"
  "frames_of (ts @ us) = frames_of ts @ frames_of us"
  by (simp_all add: datagrams_of_def frames_of_def)

lemma contents_simps [simp]:
  "datagrams_of [] = []" "frames_of [] = []"
  by (simp_all add: datagrams_of_def frames_of_def)

lemma in_datagrams_of: "raw \<in> set (datagrams_of turns) \<longleftrightarrow> (\<exists>e. (e, Raw_Udp (Some raw)) \<in> set turns)"
  by (force simp: datagrams_of_def split: cm_event.splits option.splits)

section \<open>The books of a node\<close>

text \<open>Towards the connection manager: every frame the device gave and every datagram a remote got has
  been taken by the connection manager, waits in a channel or waits to enter it; frames keep their order.\<close>

definition balanced :: "node_event list \<Rightarrow> node \<Rightarrow> bool" where
  "balanced evs n \<longleftrightarrow>
     tun_buf (node_lm n) = [] \<and> packets_from_local (node_lm n) = frames_given (\<not> is_layer3 n) evs \<and>
     frames_given (\<not> is_layer3 n) evs = frames_of (turns_of evs) @ from_local n @ lm_outbox n \<and>
     mset (received n) = mset (datagrams_of (turns_of evs) @ raw_udp n @ handing_over n)"

text \<open>Around a remote: what it has handed on is what it got, decoded; what is on its wire or held
  by its sink, and what it has still to send, is part of what the manager sent, encoded, in order.\<close>

definition encoded :: "lz4 \<Rightarrow> dyn_remote \<Rightarrow> outgoing_udp_packet \<Rightarrow> byte_vec \<times> socket_addr" where
  "encoded z r out = (dyn_encode z r (packet_bytes out), destination out)"

definition remote_books :: "lz4 \<Rightarrow> node_event list \<Rightarrow> outgoing_udp_packet list \<Rightarrow> nat \<Rightarrow> node_remote \<Rightarrow> bool" where
  "remote_books z evs sent j r \<longleftrightarrow>
     to_manager (rtask r) = datagrams_read z j (task_remote (rtask r)) evs \<and>
     subseq (outgoing_line (rtask r) @ map (encoded z (task_remote (rtask r))) (unread r))
       (map (encoded z (task_remote (rtask r))) sent)"

definition remotes_balanced :: "lz4 \<Rightarrow> node_event list \<Rightarrow> node \<Rightarrow> bool" where
  "remotes_balanced z evs n \<longleftrightarrow> (\<forall>j < length (node_remotes n).
     remote_books z evs (udp_output_broadcast_to_remotes (node_cm n)) j (node_remotes n ! j))"

lemma mset_concat_update:
  "i < length xs \<Longrightarrow> mset (concat (map f (xs[i := y]))) + mset (f (xs ! i)) = mset (concat (map f xs)) + mset (f y)"
proof (induction xs arbitrary: i)
  case (Cons x xs)
  show ?case
  proof (cases i)
    case (Suc j)
    with Cons.IH [of j] Cons.prems show ?thesis by (simp add: union_assoc)
  qed simp
qed simp

lemma concat_update_same:
  "f y = f (xs ! i) \<Longrightarrow> concat (map f (xs[i := y])) = concat (map f xs)"
proof (cases "i < length xs")
  case True
  moreover assume "f y = f (xs ! i)"
  ultimately have "map f (xs[i := y]) = (map f xs)[i := map f xs ! i]" by (simp add: map_update)
  then show ?thesis by simp
qed (simp add: list_update_beyond)

subsection \<open>Turns of the other tasks\<close>

lemma remote_read_closed: "remote_read z None r = Inl (Unwrap_None ''input_stream.next'')"
  by (cases r) (simp_all add: remote_read_def udp_read_def lz4_read_def unwrap_def)

lemma remote_runs_survivable:
  "remote_task_turn z ev t = Running t' \<Longrightarrow> survivable z (task_remote t) ev"
proof (cases "(z, task_remote t, ev)" rule: survivable.cases)
  case (1 z' r out res)
  assume "remote_task_turn z ev t = Running t'"
  with 1 dyn.write_runs [of z res "packet_bytes out" "destination out" "task_remote t"] show ?thesis
    by (cases "remote_write z res (packet_bytes out) (destination out) (task_remote t)")
      (auto simp: remote_task_turn_def)
next
  case (4 z' r w a accepted)
  assume "remote_task_turn z ev t = Running t'"
  with 4 show ?thesis
    by (cases "dyn_decode z (task_remote t) w") (auto simp: remote_task_turn_def dyn.read_received split: if_split_asm)
qed (auto simp: remote_task_turn_def dyn.read_error remote_read_closed)

lemma remote_turn_after:
  "remote_task_turn z ev t = Running t' \<Longrightarrow> task_after z [ev] t t'"
  using remote_runs_survivable remote_task_turn_survives by fastforce

lemma encoded_cong: "dyn_encode z r' = dyn_encode z r \<Longrightarrow> encoded z r' = encoded z r"
  by (simp add: encoded_def fun_eq_iff)

lemma datagrams_read_cong:
  assumes "task_after z es t t'"
  shows "datagrams_read z j (task_remote t') evs = datagrams_read z j (task_remote t) evs"
proof -
  have "event_read z j (task_remote t') ev = event_read z j (task_remote t) ev" for ev
    using assms events_depend_on(3) [of "task_remote t'" "task_remote t" z] by (cases ev) (simp_all add: task_after_def)
  then show ?thesis by (simp add: datagrams_read_def cong: map_cong)
qed

lemma device_read_gives:
  assumes "local_manager_turn (Device_Read answers tun True) lm = Some (Running lm')" and "tun_buf lm = []"
  shows "\<exists>f. frame_read (is_layer2 (device lm)) (Device_Read answers tun True) = [f] \<and>
    packets_from_local lm' = packets_from_local lm @ [f] \<and> tun_buf lm' = [] \<and> device lm' = device lm"
proof (cases "kind (device lm)")
  case (Layer2_Device dev)
  with assms show ?thesis
    by (cases answers rule: skip_errors_cases)
      (auto simp: local_manager_turn_def local_read_def poll_read_eq frame_read_def is_layer2_def split: if_split_asm)
next
  case (Layer3_Device cfg)
  with assms show ?thesis
    by (auto simp: local_manager_turn_def local_read_def frame_read_def is_layer2_def
        split: option.split_asm io_result.split_asm)
qed

lemma device_write_keeps:
  assumes "local_manager_turn (To_Device (Some p) answers tun) lm = Some (Running lm')"
  shows "packets_from_local lm' = packets_from_local lm" and "tun_buf lm' = tun_buf lm"
    and "is_layer2 (device lm') = is_layer2 (device lm)"
  using assms local_write_out by (auto elim!: manager_writes simp: is_layer2_def)

subsection \<open>Every step keeps the books\<close>

lemma balanced_take:
  assumes "take_event ev n = Some n1" and "balanced evs n"
  shows "balanced (evs @ [Manager_Turn e ev]) (after_turn cm' n1)"
proof -
  have r: "received (after_turn cm' n1) = received n1" "handing_over (after_turn cm' n1) = handing_over n1"
    by (simp_all add: received_def handing_over_def after_turn_def broadcast_def comp_def)
  have "is_layer3 (after_turn cm' n1) = is_layer3 n" "node_lm (after_turn cm' n1) = node_lm n"
    using take_event_frame [OF assms(1)] by (simp_all add: is_layer3_def after_turn_def)
  then show ?thesis
    using assms unfolding balanced_def r
    by (auto simp: take_event_def after_turn_def datagrams_of_def frames_of_def received_def handing_over_def
        split: cm_event.splits option.splits list.splits if_splits)
qed

lemma balanced_remote_sends:
  assumes "balanced evs n" and "node_remotes n ! i = r"
    and "remote_task_turn z (Outgoing (Inr out) res) (rtask r) = Running t'"
  shows "balanced evs (n\<lparr>node_remotes := (node_remotes n)[i := r\<lparr>rtask := t', unread := outs\<rparr>]\<rparr>)" (is "balanced evs ?n")
proof -
  let ?r = "r\<lparr>rtask := t', unread := outs\<rparr>"
  have "to_manager t' = to_manager (rtask r)" using remote_turn_after [OF assms(3)] by (simp add: task_after_def)
  then have "received ?n = received n" "handing_over ?n = handing_over n"
    using assms(2) concat_update_same [of "\<lambda>r. to_manager (rtask r)" ?r "node_remotes n" i]
      concat_update_same [of recv_outbox ?r "node_remotes n" i]
    by (simp_all add: received_def handing_over_def)
  with assms(1) show ?thesis by (simp add: balanced_def is_layer3_def)
qed

lemma remote_reads_appends:
  assumes "remote_task_turn z (Incoming item True) t = Running t'"
  obtains raw where "manager_input z (task_remote t) (Incoming item True) = [raw]" and "to_manager t' = to_manager t @ [raw]"
proof -
  have "survivable z (task_remote t) (Incoming item True)" using assms by (rule remote_runs_survivable)
  then obtain raw where "manager_input z (task_remote t) (Incoming item True) = [raw]"
    by (cases "(z, task_remote t, Incoming item True)" rule: survivable.cases) auto
  with remote_turn_after [OF assms] that show ?thesis by (simp add: task_after_def)
qed

lemma balanced_remote_reads:
  assumes "balanced evs n" and "i < length (node_remotes n)" and "node_remotes n ! i = r" and "recv_outbox r = []"
    and "remote_task_turn z (Incoming item True) (rtask r) = Running t'"
  shows "balanced (evs @ [Remote_Got i item]) (n\<lparr>node_remotes := (node_remotes n)[i := after_receive t' r]\<rparr>)"
    (is "balanced _ ?n")
proof -
  obtain raw where raw: "to_manager t' = to_manager (rtask r) @ [raw]" using assms(5) by (rule remote_reads_appends)
  have "mset (received ?n) = mset (received n) + {#raw#}" "mset (handing_over ?n) = mset (handing_over n) + {#raw#}"
    using assms(2-4) raw mset_concat_update [of i "node_remotes n" "\<lambda>r. to_manager (rtask r)" "after_receive t' r"]
      mset_concat_update [of i "node_remotes n" recv_outbox "after_receive t' r"]
    by (simp_all add: received_def handing_over_def after_receive_def)
  with assms(1) show ?thesis by (simp add: balanced_def is_layer3_def)
qed

lemma balanced_hands_over:
  assumes "balanced evs n" and "i < length (node_remotes n)" and "node_remotes n ! i = r" and "recv_outbox r = x # xs"
  shows "balanced evs (n\<lparr>node_remotes := (node_remotes n)[i := r\<lparr>recv_outbox := xs\<rparr>], raw_udp := raw_udp n @ [x]\<rparr>)"
    (is "balanced _ ?n")
proof -
  let ?r = "r\<lparr>recv_outbox := xs\<rparr>"
  have "received ?n = received n"
    using assms concat_update_same [of "\<lambda>r. to_manager (rtask r)" ?r "node_remotes n" i]
    by (simp add: received_def)
  moreover have "mset (handing_over n) = mset (handing_over ?n) + {#x#}"
    using assms mset_concat_update [of i "node_remotes n" recv_outbox ?r]
    by (simp add: handing_over_def)
  ultimately show ?thesis using assms(1) by (simp add: balanced_def is_layer3_def)
qed

lemma balanced_act:
  assumes "node_act L z us n n'" and "balanced evs n"
  shows "balanced (evs @ us) n'"
  using assms(1)
proof cases
  case (cm_takes ev n1 e cm')
  with balanced_take assms(2) show ?thesis by simp
next
  case (lm_reads answers tun lm')
  then show ?thesis using assms(2) device_read_gives [of answers tun "node_lm n" lm']
    by (auto simp: balanced_def is_layer3_def after_read_def received_def handing_over_def)
next
  case (lm_writes p ps sends tunw lm')
  then show ?thesis using assms(2) device_write_keeps [of p sends tunw "node_lm n" lm']
    by (simp add: balanced_def is_layer3_def received_def handing_over_def)
next
  case (remote_sends i r out outs res t')
  with balanced_remote_sends assms(2) show ?thesis by simp
next
  case (remote_reads i r item t')
  with balanced_remote_reads assms(2) show ?thesis by simp
next
  case (remote_hands_over i r x xs)
  with balanced_hands_over assms(2) show ?thesis by simp
qed (use assms(2) in \<open>auto simp: balanced_def is_layer3_def received_def handing_over_def\<close>)

lemma remotes_balanced_update:
  assumes "remotes_balanced z evs n" and "node_cm n' = node_cm n" and "node_remotes n' = (node_remotes n)[i := r']"
    and "\<And>j. j < length (node_remotes n) \<Longrightarrow> j \<noteq> i \<Longrightarrow> datagrams_read z j (task_remote (rtask (node_remotes n ! j))) us = []"
    and "remote_books z evs (udp_output_broadcast_to_remotes (node_cm n)) i (node_remotes n ! i) \<Longrightarrow>
      remote_books z (evs @ us) (udp_output_broadcast_to_remotes (node_cm n)) i r'"
  shows "remotes_balanced z (evs @ us) n'"
  unfolding remotes_balanced_def assms(2,3)
proof (intro allI impI)
  fix j assume j: "j < length ((node_remotes n)[i := r'])"
  then have "remote_books z evs (udp_output_broadcast_to_remotes (node_cm n)) j (node_remotes n ! j)"
    using assms(1) by (simp add: remotes_balanced_def)
  with j assms(4,5) show "remote_books z (evs @ us) (udp_output_broadcast_to_remotes (node_cm n)) j ((node_remotes n)[i := r'] ! j)"
    by (cases "j = i") (auto simp: remote_books_def)
qed

lemma remotes_balanced_same:
  assumes "remotes_balanced z evs n" and "node_remotes n' = node_remotes n"
    and "udp_output_broadcast_to_remotes (node_cm n') = udp_output_broadcast_to_remotes (node_cm n)"
    and "\<And>j r. datagrams_read z j r us = []"
  shows "remotes_balanced z (evs @ us) n'"
  using assms by (simp add: remotes_balanced_def remote_books_def)

lemma broadcast_books:
  assumes "remote_books z evs sent j r" and "event_read z j (task_remote (rtask r)) ev = []"
  shows "remote_books z (evs @ [ev]) (sent @ outs) j (broadcast outs r)"
proof -
  let ?enc = "map (encoded z (task_remote (rtask r)))"
  have "subseq (outgoing_line (rtask r) @ ?enc (drop k (unread r @ outs)))
      (outgoing_line (rtask r) @ ?enc (unread r @ outs))" for k
    by (intro list_emb_append_mono subseq_map suffix_imp_subseq suffix_drop) simp
  also have "subseq (outgoing_line (rtask r) @ ?enc (unread r @ outs)) (?enc (sent @ outs))"
    using list_emb_append_mono [of "(=)" "outgoing_line (rtask r) @ ?enc (unread r)" "?enc sent" "?enc outs" "?enc outs"]
      assms(1) by (simp add: remote_books_def)
  finally show ?thesis using assms by (simp add: remote_books_def broadcast_def Let_def del: drop_append)
qed

lemma send_books:
  assumes "remote_books z evs sent j r" and "unread r = out # outs"
    and "remote_task_turn z (Outgoing (Inr out) res) (rtask r) = Running t'"
  shows "remote_books z evs sent j (r\<lparr>rtask := t', unread := outs\<rparr>)"
proof -
  note after = remote_turn_after [OF assms(3)]
  let ?enc = "encoded z (task_remote (rtask r))"
  have enc: "encoded z (task_remote t') = ?enc" using after by (intro encoded_cong) (simp add: task_after_def)
  have "subseq (outgoing_line t' @ map ?enc outs) (outgoing_line (rtask r) @ map ?enc (unread r))"
    using after assms(2) by (auto simp: task_after_def encoded_def intro: list_emb_append_mono)
  with assms(1) after show ?thesis
    by (auto simp: remote_books_def enc datagrams_read_cong [OF after] task_after_def intro: subseq_order.trans)
qed

lemma read_books:
  assumes "remote_books z evs sent j r" and "remote_task_turn z (Incoming item True) (rtask r) = Running t'"
  shows "remote_books z (evs @ [Remote_Got j item]) sent j (after_receive t' r)"
proof -
  note after = remote_turn_after [OF assms(2)]
  have enc: "encoded z (task_remote t') = encoded z (task_remote (rtask r))"
    using after by (intro encoded_cong) (simp add: task_after_def)
  have "manager_input z (task_remote t') ev = manager_input z (task_remote (rtask r)) ev" for ev
    using after by (intro events_depend_on(3)) (simp_all add: task_after_def)
  with assms(1) after show ?thesis
    by (simp add: remote_books_def after_receive_def enc datagrams_read_cong [OF after] task_after_def)
qed

lemma remotes_balanced_act:
  assumes "node_act L z us n n'" and "remotes_balanced z evs n"
  shows "remotes_balanced z (evs @ us) n'"
  using assms(1)
proof cases
  case (cm_takes ev n1 e cm')
  note frame = take_event_frame [OF cm_takes(4)]
  let ?sent = "udp_output_broadcast_to_remotes"
  have "?sent cm' = ?sent (node_cm n) @ drop (length (?sent (node_cm n))) (?sent cm')"
    using turn_appends(2) [OF cm_takes(5)] by simp
  with assms(2) frame broadcast_books [of z evs "?sent (node_cm n)"] show ?thesis
    unfolding cm_takes(1,2) remotes_balanced_def
    by (auto simp: after_turn_def) (metis event_read.simps(2))
next
  case (remote_sends i r out outs res t')
  with send_books show ?thesis
    by (intro remotes_balanced_update [OF assms(2), where i = i and r' = "r\<lparr>rtask := t', unread := outs\<rparr>"]) simp_all
next
  case (remote_reads i r item t')
  with read_books show ?thesis
    by (intro remotes_balanced_update [OF assms(2), where i = i and r' = "after_receive t' r"]) simp_all
next
  case (remote_hands_over i r x xs)
  then show ?thesis
    by (intro remotes_balanced_update [OF assms(2), where i = i and r' = "r\<lparr>recv_outbox := xs\<rparr>"])
      (simp_all add: remote_books_def)
qed (use remotes_balanced_same [OF assms(2), of n' us] in \<open>simp_all add: after_read_def\<close>)

lemma act_is_turn:
  assumes "node_act L z us n n'"
  shows "run_loop L (turns_of us) (node_cm n) = Running (node_cm n')"
  using assms by cases (auto simp: run_loop_simps after_turn_def after_read_def)

lemma spawn_remotes_new:
  "spawn_remotes sys devs = Inr ts \<Longrightarrow> list_all (\<lambda>t. to_manager t = [] \<and> outgoing_line t = []) ts"
proof (induction devs arbitrary: ts)
  case (Cons dev devs)
  have "wire s = [] \<and> unsent s = []" if "make_socket sys ifc addr port b = Inr s" for ifc addr port b s
    using that by (auto simp: make_socket_def Let_def split: if_split_asm option.split_asm sum.split_asm)
  then have "outgoing_line \<lparr>task_remote = r, to_manager = []\<rparr> = []" if "make_remote sys dev = Inr r" for r
    using that by (auto simp: outgoing_line_def make_remote_def udp_new_def lz4_new_def map_sum_def
        split: remote_types.split_asm option.split_asm sum.split_asm)
  with Cons show ?case by (auto split: sum.split_asm)
qed simp

lemma started_balanced:
  assumes "started n"
  shows "balanced [] n" and "remotes_balanced z [] n" and "udp_output_broadcast_to_remotes (node_cm n) = []"
proof -
  obtain ts mc where "main_start ts mc = Inr n" using assms by (auto simp: started_def)
  then obtain settings tasks lm logger where tk: "remote_manager_new (machine_os mc) settings = Inr tasks"
    and lm: "local_manager_new (machine_pcap mc) (machine_tun mc) settings = Inr lm"
    and n: "node_remotes n = map (\<lambda>t. \<lparr>rtask = t, unread = [], recv_outbox = []\<rparr>) tasks"
      "raw_udp n = []" "node_lm n = lm" "lm_outbox n = []" "from_local n = []"
      "node_cm n = connection_manager_new ts settings logger"
    by (auto elim: main_startE)
  have new: "list_all (\<lambda>t. to_manager t = [] \<and> outgoing_line t = []) tasks"
    using tk by (auto simp: remote_manager_new_def intro: spawn_remotes_new)
  then have "received n = []" "handing_over n = []"
    by (auto simp: received_def handing_over_def n list_all_iff)
  then show "balanced [] n" using local_manager_new_empty [OF lm] by (simp add: balanced_def n)
  show "remotes_balanced z [] n" using new by (simp add: remotes_balanced_def remote_books_def n list_all_length)
  show "udp_output_broadcast_to_remotes (node_cm n) = []" by (simp add: n connection_manager_new_def)
qed

lemma run_loop_append: "run_loop L (ts @ us) m = chain (run_loop L ts m) (run_loop L us)"
  by (simp add: run_loop_def [abs_def] for_each_append)

lemma node_run_is_loop:
  "node_runs L z n evs n' \<Longrightarrow> run_loop L (turns_of evs) (node_cm n) = Running (node_cm n')"
  by (induction rule: node_runs.induct) (simp_all add: run_loop_simps run_loop_append act_is_turn)

lemma node_run_balanced:
  assumes "node_runs L z n evs n'" and "started n"
  shows "balanced evs n'" and "remotes_balanced z evs n'"
  using assms by (induction rule: node_runs.induct) (simp_all add: started_balanced balanced_act remotes_balanced_act)

text \<open>What the remotes have handed on, and what is on their wires, by the books.\<close>

lemma remotes_read:
  assumes "remotes_balanced z evs n"
  shows "received n = concat (map (\<lambda>j. datagrams_read z j (task_remote (rtask (node_remotes n ! j))) evs)
    [0..<length (node_remotes n)])"
proof -
  have "map (\<lambda>r. to_manager (rtask r)) (node_remotes n) =
      map (\<lambda>j. datagrams_read z j (task_remote (rtask (node_remotes n ! j))) evs) [0..<length (node_remotes n)]"
    using assms by (intro nth_equalityI) (simp_all add: remotes_balanced_def remote_books_def)
  then show ?thesis by (simp add: received_def)
qed

lemma remote_wire:
  assumes "remotes_balanced z evs n" and "r \<in> set (node_remotes n)"
  shows "subseq (wire (remote_socket (task_remote (rtask r))))
    (map (encoded z (task_remote (rtask r))) (udp_output_broadcast_to_remotes (node_cm n)))"
proof -
  have "subseq (outgoing_line (rtask r) @ map (encoded z (task_remote (rtask r))) (unread r))
      (map (encoded z (task_remote (rtask r))) (udp_output_broadcast_to_remotes (node_cm n)))"
    using assms by (auto simp: in_set_conv_nth remotes_balanced_def remote_books_def)
  moreover have "subseq (wire (remote_socket (task_remote (rtask r))))
      (outgoing_line (rtask r) @ map (encoded z (task_remote (rtask r))) (unread r))"
    by (auto simp: outgoing_line_def intro: list_emb_append2 prefix_imp_subseq)
  ultimately show ?thesis using subseq_order.trans by blast
qed

section \<open>A scheduler\<close>

text \<open>The steps as jobs a scheduler can execute, and that they are all there are.\<close>

datatype job =
    Cm_Turn env cm_event
  | Cm_Send
  | Lm_Read "read_answer readiness list" "byte_vec io_result option"
  | Lm_Send
  | Lm_Write "send_answer readiness list" "bool option"
  | Remote_Send nat send_result
  | Remote_Read nat "stream_item option"
  | Remote_Hand_Over nat

fun running :: "'s outcome \<Rightarrow> 's option" where
  "running (Running s) = Some s"
| "running (Panicked p s) = None"

lemma running_Some [simp]: "running r = Some s \<longleftrightarrow> r = Running s"
  by (cases r) auto

definition put_remote :: "nat \<Rightarrow> node_remote \<Rightarrow> node \<Rightarrow> node" where
  "put_remote i r n = n\<lparr>node_remotes := (node_remotes n)[i := r]\<rparr>"

fun node_do :: "libs \<Rightarrow> lz4 \<Rightarrow> job \<Rightarrow> node \<Rightarrow> (node_event list \<times> node) option" where
  "node_do L z (Cm_Turn e ev) n =
     (if cm_outbox n = [] then
        case take_event ev n of
          None \<Rightarrow> None
        | Some n1 \<Rightarrow> map_option (\<lambda>cm'. ([Manager_Turn e ev], after_turn cm' n1)) (running (run_turn L e ev (node_cm n)))
      else None)"
| "node_do L z Cm_Send n =
     (case cm_outbox n of
        p # ps \<Rightarrow> if length (to_local n) < channel_capacity
          then Some ([], n\<lparr>cm_outbox := ps, to_local := to_local n @ [p]\<rparr>) else None
      | [] \<Rightarrow> None)"
| "node_do L z (Lm_Read answers tun) n =
     (if lm_outbox n = [] then
        map_option (\<lambda>lm'. ([Device_Gave answers tun], after_read lm' n))
          (Option.bind (local_manager_turn (Device_Read answers tun True) (node_lm n)) running)
      else None)"
| "node_do L z Lm_Send n =
     (case lm_outbox n of
        f # fs \<Rightarrow> if length (from_local n) < channel_capacity
          then Some ([], n\<lparr>lm_outbox := fs, from_local := from_local n @ [f]\<rparr>) else None
      | [] \<Rightarrow> None)"
| "node_do L z (Lm_Write sends tunw) n =
     (case (lm_outbox n, to_local n) of
        ([], p # ps) \<Rightarrow>
          map_option (\<lambda>lm'. ([], n\<lparr>to_local := ps, node_lm := lm'\<rparr>))
            (Option.bind (local_manager_turn (To_Device (Some p) sends tunw) (node_lm n)) running)
      | _ \<Rightarrow> None)"
| "node_do L z (Remote_Send i res) n =
     (if i < length (node_remotes n) then
        let r = node_remotes n ! i
        in case (recv_outbox r, unread r) of
             ([], out # outs) \<Rightarrow>
               map_option (\<lambda>t'. ([], put_remote i (r\<lparr>rtask := t', unread := outs\<rparr>) n))
                 (running (remote_task_turn z (Outgoing (Inr out) res) (rtask r)))
           | _ \<Rightarrow> None
      else None)"
| "node_do L z (Remote_Read i item) n =
     (if i < length (node_remotes n) \<and> recv_outbox (node_remotes n ! i) = [] then
        let r = node_remotes n ! i
        in map_option (\<lambda>t'. ([Remote_Got i item], put_remote i (after_receive t' r) n))
             (running (remote_task_turn z (Incoming item True) (rtask r)))
      else None)"
| "node_do L z (Remote_Hand_Over i) n =
     (if i < length (node_remotes n) \<and> length (raw_udp n) < channel_capacity then
        let r = node_remotes n ! i
        in case recv_outbox r of
             x # xs \<Rightarrow> Some ([], (put_remote i (r\<lparr>recv_outbox := xs\<rparr>) n)\<lparr>raw_udp := raw_udp n @ [x]\<rparr>)
           | [] \<Rightarrow> None
      else None)"

lemma node_do_act: "node_do L z job n = Some (us, n') \<Longrightarrow> node_act L z us n n'"
  by (cases job)
    (auto simp: put_remote_def Let_def bind_eq_Some_conv
      split: if_split_asm option.split_asm list.split_asm intro: node_act.intros)

lemma act_node_do:
  assumes "node_act L z us n n'"
  shows "\<exists>job. node_do L z job n = Some (us, n')"
  using assms
proof cases
  case (cm_takes ev n1 e cm')
  then show ?thesis by (intro exI [of _ "Cm_Turn e ev"]) simp
next
  case (cm_sends p ps)
  then show ?thesis by (intro exI [of _ Cm_Send]) simp
next
  case (lm_reads answers tun lm')
  then show ?thesis by (intro exI [of _ "Lm_Read answers tun"]) simp
next
  case (lm_sends f fs)
  then show ?thesis by (intro exI [of _ Lm_Send]) simp
next
  case (lm_writes p ps sends tunw lm')
  then show ?thesis by (intro exI [of _ "Lm_Write sends tunw"]) simp
next
  case (remote_sends i r out outs res t')
  then show ?thesis by (intro exI [of _ "Remote_Send i res"]) (simp add: put_remote_def)
next
  case (remote_reads i r item t')
  then show ?thesis by (intro exI [of _ "Remote_Read i item"]) (simp add: put_remote_def)
next
  case (remote_hands_over i r x xs)
  then show ?thesis by (intro exI [of _ "Remote_Hand_Over i"]) (simp add: put_remote_def)
qed

fun node_exec :: "libs \<Rightarrow> lz4 \<Rightarrow> job list \<Rightarrow> node \<Rightarrow> (node_event list \<times> node) option" where
  "node_exec L z [] n = Some ([], n)"
| "node_exec L z (job # jobs) n =
     (case node_do L z job n of
        None \<Rightarrow> None
      | Some (us, n1) \<Rightarrow> map_option (\<lambda>(vs, n2). (us @ vs, n2)) (node_exec L z jobs n1))"

lemma node_runs_trans:
  assumes "node_runs L z n1 us n2" and "node_runs L z n ts n1"
  shows "node_runs L z n (ts @ us) n2"
  using assms by (induction rule: node_runs.induct) (auto intro: step_run simp flip: append_assoc)

lemma node_exec_runs: "node_exec L z jobs n = Some (evs, n') \<Longrightarrow> node_runs L z n evs n'"
proof (induction jobs arbitrary: n evs)
  case (Cons job jobs)
  then obtain us n1 vs where "node_do L z job n = Some (us, n1)" and "node_exec L z jobs n1 = Some (vs, n')"
    and "evs = us @ vs"
    by (auto split: option.split_asm)
  with Cons.IH show ?case
    using node_runs_trans step_run [OF begin_run node_do_act] by fastforce
qed (simp add: begin_run)

fun job_events :: "job \<Rightarrow> node_event list" where
  "job_events (Cm_Turn e ev) = [Manager_Turn e ev]"
| "job_events (Lm_Read answers tun) = [Device_Gave answers tun]"
| "job_events (Remote_Read i item) = [Remote_Got i item]"
| "job_events _ = []"

lemma node_do_events: "node_do L z job n = Some (us, n') \<Longrightarrow> us = job_events job"
  by (cases job) (auto simp: Let_def split: if_split_asm option.split_asm list.split_asm)

lemma node_exec_events: "node_exec L z jobs n = Some (evs, n') \<Longrightarrow> evs = concat (map job_events jobs)"
  by (induction jobs arbitrary: n evs) (auto split: option.split_asm dest!: node_do_events)

definition node_after :: "libs \<Rightarrow> lz4 \<Rightarrow> job list \<Rightarrow> node \<Rightarrow> node" where
  "node_after L z jobs n = snd (the (node_exec L z jobs n))"

lemma node_exec_runs_events:
  assumes "\<not> Option.is_none (node_exec L z jobs n)"
  shows "node_runs L z n (concat (map job_events jobs)) (node_after L z jobs n)"
proof -
  obtain ts n' where x: "node_exec L z jobs n = Some (ts, n')"
    using assms by (cases "node_exec L z jobs n") auto
  with node_exec_runs [OF x] node_exec_events [OF x] show ?thesis by (simp add: node_after_def)
qed

section \<open>Properties\<close>

text \<open>The jobs that bring one datagram to the connection manager, and one frame.\<close>

definition receive_jobs :: "system_time \<Rightarrow> messages \<Rightarrow> job list" where
  "receive_jobs t msg = (let raw = demo_datagram msg in
     [Remote_Read 0 (Some (Received (raw_bytes raw) (received_from raw))), Remote_Hand_Over 0,
      Cm_Turn (demo_env t) (Raw_Udp (Some raw))])"

definition frame_jobs :: "system_time \<Rightarrow> byte_vec \<Rightarrow> job list" where
  "frame_jobs t frame =
     [Lm_Read [] (Some (Io_Ok frame)), Lm_Send, Cm_Turn (demo_env t) (From_Local (Some frame))]"

definition demo_sender_jobs :: "job list" where
  "demo_sender_jobs = receive_jobs 1 (Keepalive_Msg demo_announcement) @ frame_jobs 2 [2, 9] @ frame_jobs 3 [2, 8] @
     replicate 6 (Remote_Send 0 Flushed)"

definition demo_sender_events :: "node_event list" where
  "demo_sender_events = concat (map job_events demo_sender_jobs)"

abbreviation demo_sender_node' :: node where
  "demo_sender_node' \<equiv> node_after demo_libs demo_lz4 demo_sender_jobs demo_node"

lemma demo_sender_runs:
  "node_runs demo_libs demo_lz4 demo_node demo_sender_events demo_sender_node'"
  unfolding demo_sender_events_def by (rule node_exec_runs_events) code_simp

text \<open>C16. A node moves messages and neither alters nor makes up any, whatever the order in which its tasks
  run. The frames that the local device gave are, in order, those the connection manager has taken, then
  those in the channel and on their way into it. The datagrams that the remotes got are, decoded, those
  the manager has taken, those in the channel and on their way into it, in some order. What is
  on the wire of a remote is, encoded and in order, a part of what the manager sent to the
  remotes; the broadcast channel and the sockets may drop datagrams. What the manager sent to the local
  side is, in order, what was taken for the device, what is in the channel and what waits
  to enter it; a TUN device has written all that was taken except empty packets, a capture device a part of it.\<close>

theorem node_moves_messages:
  assumes "started n" and "node_runs L z n evs n'"
  shows "frames_given (\<not> is_layer3 n') evs = frames_of (turns_of evs) @ from_local n' @ lm_outbox n' \<and>
    mset (concat (map (\<lambda>j. datagrams_read z j (task_remote (rtask (node_remotes n' ! j))) evs)
        [0..<length (node_remotes n')])) =
      mset (datagrams_of (turns_of evs) @ raw_udp n' @ handing_over n') \<and>
    (\<forall>r \<in> set (node_remotes n'). subseq (wire (remote_socket (task_remote (rtask r))))
      (map (\<lambda>d. (dyn_encode z (task_remote (rtask r)) (packet_bytes d), destination d))
        (udp_output_broadcast_to_remotes (node_cm n')))) \<and>
    (\<exists>taken. packets_to_local (node_cm n') = taken @ to_local n' @ cm_outbox n' \<and>
       subseq (written (device (node_lm n'))) taken \<and>
       (is_layer3 n' \<longrightarrow> written (device (node_lm n')) = filter (\<lambda>p. p \<noteq> []) taken))"
proof -
  note bal = node_run_balanced [OF assms(2,1)]
  have "received n' = concat (map (\<lambda>j. datagrams_read z j (task_remote (rtask (node_remotes n' ! j))) evs)
      [0..<length (node_remotes n')])"
    using remotes_read [OF bal(2)] .
  moreover have "node_inv n'"
    using node_runs_reachable [OF assms(2,1)] by (rule nodes.reachable_inv)
  ultimately show ?thesis
    using bal(1) remote_wire [OF bal(2)] by (auto simp: balanced_def node_inv_def encoded_def [abs_def])
qed

theorem node_moves_messages_witness:
  "frames_given False demo_sender_events = [[2, 9], [2, 8]] \<and>
   map (\<lambda>r. length (wire (remote_socket (task_remote (rtask r))))) (node_remotes demo_sender_node') = [6] \<and>
   subseq (wire (remote_socket (task_remote (rtask (hd (node_remotes demo_sender_node'))))))
     (map (\<lambda>d. (dyn_encode demo_lz4 (task_remote (rtask (hd (node_remotes demo_sender_node')))) (packet_bytes d), destination d))
       (udp_output_broadcast_to_remotes (node_cm demo_sender_node')))"
proof -
  have st: "started demo_node" using demo_node_starts by (auto simp: started_def)
  have "from_local demo_sender_node' = []" "lm_outbox demo_sender_node' = []" "is_layer3 demo_sender_node'"
    by code_simp+
  moreover have "frames_of (turns_of demo_sender_events) = [[2, 9], [2, 8]]" by code_simp
  moreover have six: "map (\<lambda>r. length (wire (remote_socket (task_remote (rtask r))))) (node_remotes demo_sender_node') = [6]"
    by code_simp
  moreover have "hd (node_remotes demo_sender_node') \<in> set (node_remotes demo_sender_node')"
    using six by (intro hd_in_set) auto
  ultimately show ?thesis using node_moves_messages [OF st demo_sender_runs] by simp
qed

end
