(* ===== verification/Spec2Isabelle.thy ===== *)
theory Spec2Isabelle
  imports Shutdown Node_Runs
begin

text \<open>
  A verification of \<^emph>\<open>mpconn\<close>, a multipath tunnel. A node takes frames from a local device (a capture
  device on layer 2, a TUN device on layer 3), numbers them per peer, sends a copy over every known
  connection of the peer, and on the other side delivers the first copy of each frame in order.

  \<^bold>\<open>The program and the theories\<close>

  The program is a set of tasks that \<open>main\<close> connects by channels: one task per remote, the connection
  manager and the local manager. Remotes hand datagrams to the connection manager (\<open>raw_udp\<close>), which
  hands packets to the local manager (\<open>packets_to_local\<close>), takes frames from it
  (\<open>packets_from_local\<close>), and broadcasts datagrams to all remotes. One theory models one source file,
  or one aspect of a large one:

  \<^item> \<open>Mpconn_Prelude\<close>: machine integers, clock, addresses, panics as values, the \<open>outcome\<close> of a handler
    with its loop \<open>for_each\<close>, joining of tasks, reachability and the locale \<open>invariant_system\<close>.
  \<^item> \<open>Btree_Map\<close> and \<open>Hash_Map\<close>: the two maps of the standard library, each with its contract
    (locales \<open>ordered_map\<close>, \<open>hash_table\<close>) and an interpretation. A hash map is iterated over in an
    arbitrary order, which is an argument.
  \<^item> \<open>Messages\<close>: \<open>messages.rs\<close>, \<open>internal_messages.rs\<close>, \<open>settings.rs\<close>.
  \<^item> \<open>Sequencer\<close>: \<open>sequencer.rs\<close> and the loop its callers drain it with. The locale \<open>reorder_buffer\<close>
    states what a life of insertions and expiries delivers, \<open>keeping_buffer\<close> that it loses nothing; both
    are interpreted on the model. Next to them, an abstract reorder buffer on partial maps that
    the operations refine, and the unit tests.
  \<^item> \<open>Peer_List\<close>: \<open>peer_list.rs\<close>.
  \<^item> \<open>Traffic_Director\<close>: \<open>traffic_director.rs\<close>; both directors are tables in which the first claim of
    an address wins (locale \<open>first_claim_table\<close>).
  \<^item> \<open>Connection_Manager\<close>: \<open>connection_manager.rs\<close>, one definition per handler and the turn of
    \<open>select!\<close>. \<open>Connection_Manager_Props\<close> has its invariant, \<open>Connection_Manager_Safety\<close> its loop as a
    transition system, \<open>Connection_Manager_Behaviour\<close> what each handler does.
  \<^item> \<open>Remote\<close> and \<open>Remote_Manager\<close>: \<open>remote.rs\<close> (the trait as locale \<open>async_remote\<close>, interpreted on both
    transports and on the boxed trait object) and \<open>remote_manager.rs\<close>.
  \<^item> \<open>Local_Device\<close>: \<open>async_pcap.rs\<close>, \<open>local.rs\<close>, \<open>local_manager.rs\<close>.
  \<^item> \<open>Node\<close>, \<open>Deadlock\<close>, \<open>Node_Runs\<close>, \<open>Shutdown\<close>: \<open>main.rs\<close>. How a node starts, the steps of its tasks
    over the bounded channels, the state in which two tasks wait for each other, the runs of a node
    with an executable scheduler, and how panics end the process. A step of \<open>Node\<close> carries what the node
    gets from outside in it: a turn of the manager, a read of the device, an item of a socket.
  \<^item> \<open>Tunnel\<close>: the runs of two connection managers: what the datagrams one of them emits say, and what
    the sequencer of the other makes of those that arrive.
  \<^item> \<open>Demo_Node\<close>: concrete surroundings in which the examples are evaluated.

  \<^bold>\<open>How the model corresponds to the code\<close>

  A struct is a record, an enum a datatype, a method a definition of the same name on the record. A
  panic is the value \<open>Panicked\<close> with the state the panic leaves, or \<open>Inl\<close> where no state changes. The
  sending end of a channel, a socket and a device are the lists of what went into them. Everything the
  program does not decide is an argument: clock readings, iteration orders, whether a channel or file
  accepts (\<open>env\<close>), \<open>bincode\<close> and \<open>etherparse\<close> (\<open>libs\<close>), \<open>lz4_flex\<close> (\<open>lz4\<close>), the operating system, and
  what an asynchronous call resolves to. Theorems that need something of these name it:
  \<open>serializes\<close> (serialization of a message succeeds), \<open>decodes\<close> (it is inverted by deserialization),
  \<open>lossless\<close> (decompression inverts compression), \<open>sane_env\<close> (the clock does not run backwards; channels
  and log accept).

  Every turn of the connection manager first unwraps \<open>Arc::get_mut\<close>; the state has the number of handles
  for it, which is 1 because \<open>main\<close> moves the only one into the task. A socket has, next to what is on the
  wire, what its sink has taken and not sent: \<open>SinkExt::send\<close> documents neither whether a datagram whose
  send fails stays in the sink nor how many go out before the error, so both are part of the
  result (\<open>send_result\<close>). \<open>write_buf\<close> of an empty buffer succeeds without a call to the device. The getters
  of the TUN device that \<open>make_tunnel\<close> unwraps among the arguments of \<open>info!\<close> can fail in the model too.

  Sequence numbers and counters are 64-bit words with the wrap-around of a release build. The theorems
  on order need that the top number does not occur; the end-to-end theorems get this from fewer than
  \<open>2^64\<close> packets, and one theorem says what happens at the top.

  No definition takes fuel: the drain loop terminates because every iteration removes a packet from
  the queue, polling consumes the list of readiness notifications, all other loops run over lists. The
  endless loops of the tasks are relations on their states, or functions of the list of events.

  In \<open>Node\<close> a turn of a task is one step followed by one step for each message it sends to a bounded
  channel. This is exact for the other tasks, since no handler sends both to the local side and to the
  remotes, and a task that waits for room does nothing else. That a channel holds 128 messages, and
  that a receiver of the broadcast channel that lags behind loses the oldest ones, is what \<open>tokio\<close>
  guarantees and a premise of the steps. Steps in which a task panics are not among them; \<open>Shutdown\<close>
  says what becomes of a node then.

  \<^bold>\<open>What is proved\<close>

  \<^item> End to end: what a node writes to its device in the name of another one is a subsequence of what
    the device of that one gave, whatever the network does with what the remotes put on the wire
    except making up packets, in every interleaving of the tasks, also where the nodes come to know
    each other by keepalives only. Between the managers it is everything if one copy of each emitted
    packet comes in time.
  \<^item> Sequencer: order and uniqueness of deliveries, exact deliveries, conservation, flushing,
    refinement of the abstract buffer, invariant, behaviour at the top number.
  \<^item> Connection manager: the loop never panics where its surroundings behave, keeps its invariant and
    never unwraps \<open>None\<close>; what each handler sends, delivers, learns and leaves alone.
  \<^item> Peer list and director: adding, pruning, switching and routing after any history.
  \<^item> Remotes and local side: round trip, forwarding in both directions, binding, error behaviour,
    polling.
  \<^item> Node: how messages move between the device, the manager and the wires of the remotes, the
    deadlock, and which panics end the process.

  \<^bold>\<open>Not modelled\<close>

  Log output (but for the unwraps in it); the command line (\<open>clap\<close>) and the parsing of the settings (\<open>serde_json\<close>), whose results are
  fields of the \<open>machine\<close> a node starts on; the inside of the other crates; the commented-out test of
  \<open>sequencer.rs\<close>; the peers already pruned when \<open>prune_stale_peers\<close> panics half way, whose state
  nothing reads afterwards. A TUN device writes a packet as a whole. The network is not modelled but
  quantified over: \<open>carries\<close> says of the datagrams a manager emitted, and \<open>honest_network\<close> of what is on
  the wires of a node, that nothing else arrives as a packet in the name of the sender;
  \<open>reaches_only\<close> and \<open>announced_only\<close> say that the addresses of the receiver are those of no other peer.
\<close>

section \<open>Two nodes of the examples\<close>

text \<open>Node 1 learns the route to node 2 and takes two packets from its local device. Node 2 has no peers
  in its settings: it comes to know node 1 by a keepalive, idles beyond the deadline, and receives
  the two packets in the wrong order and one of them twice, over different connections.\<close>

definition demo_server_manager :: connection_manager where
  "demo_server_manager = connection_manager_new (\<lambda>_ _. 0) demo_server None"

definition demo_addresses :: "socket_addr set" where
  "demo_addresses = {demo_socket 1, demo_socket 2}"

definition demo_sent_events :: "(system_time \<times> cm_event) list" where
  "demo_sent_events =
     [(1, Raw_Udp (Some (demo_datagram (Keepalive_Msg demo_announcement)))),
      (2, From_Local (Some [2, 9])), (3, From_Local (Some [2, 8]))]"

definition demo_received_events :: "(system_time \<times> cm_event) list" where
  "demo_received_events =
     [(4, Raw_Udp (Some (demo_datagram (Keepalive_Msg \<lparr>ka_peer_id = 1, ka_tun_ip = Some 0x0A000001\<rparr>)))),
      (9000000, Sequencer_Tick),
      (9000001, Raw_Udp (Some (demo_datagram (Packet_Msg \<lparr>seq = 1, peer_id = 1, bytes = [2, 8]\<rparr>)))),
      (9000002, Raw_Udp (Some (demo_datagram (Packet_Msg \<lparr>seq = 0, peer_id = 1, bytes = [2, 9]\<rparr>)))),
      (9000003, Raw_Udp (Some (demo_datagram (Packet_Msg \<lparr>seq = 1, peer_id = 1, bytes = [2, 8]\<rparr>)))),
      (9000004, Sequencer_Tick)]"

definition demo_turns :: "(system_time \<times> cm_event) list \<Rightarrow> turns" where
  "demo_turns evs = map (\<lambda>(t, ev). (demo_env t, ev)) evs"

abbreviation demo_sending :: turns where
  "demo_sending \<equiv> demo_turns demo_sent_events"

abbreviation demo_receiving :: turns where
  "demo_receiving \<equiv> demo_turns demo_received_events"

lemma sane_demo_run:
  "sorted (t # map fst evs) \<Longrightarrow> list_all (open_event \<circ> snd) evs \<Longrightarrow> sane_run t (demo_turns evs)"
  unfolding demo_turns_def by (induction evs arbitrary: t) (auto intro!: exI sane_demo_env)

lemma node_demo: "node_at 0 demo_manager" "node_at 0 demo_server_manager"
  unfolding node_at_def demo_manager_def demo_server_manager_def cm_stamped_def
  by (simp_all add: cm_inv_new) (simp_all add: connection_manager_new_def peer_list_new_invs)

lemma sane_demo: "sane_run 0 demo_sending" "sane_run 0 demo_receiving"
  by (rule sane_demo_run; simp add: demo_sent_events_def demo_received_events_def)+

lemma new_demo: "new_to b (cm_peer_list demo_manager)" "new_to a (cm_peer_list demo_server_manager)"
  unfolding demo_manager_def demo_server_manager_def by (rule started_peer_new)+

lemma reaches_only_single:
  assumes "get_peer_ids h pl = [b]"
  shows "reaches_only D b pl"
proof -
  have "known_peers pl = {b}" using assms set_get_peer_ids [of h pl] by simp
  moreover have "q \<in> known_peers pl" if "peer_connection pl q a \<noteq> None" for q a
    using that by (auto simp: peer_connection_def known_peers_def split: option.splits)
  ultimately show ?thesis by (auto simp: reaches_only_def)
qed

lemma demo_reaches: "reaches_only D 2 (cm_peer_list demo_manager)"
proof (rule reaches_only_single)
  show "get_peer_ids unat (cm_peer_list demo_manager) = [2]" by code_simp
qed

lemma demo_network:
  "announced_only demo_libs demo_addresses 2 demo_sending"
  "carries demo_libs (own_peer_id demo_manager)
     (sent_towards demo_addresses (emitted demo_libs demo_sending demo_manager)) demo_receiving"
  "routed_to demo_libs 2 demo_sending demo_manager = [[2, 9], [2, 8]]"
  by code_simp+

lemma demo_network_complete:
  "always demo_libs (connected demo_libs demo_addresses 2) demo_sending demo_manager"
  "always demo_libs (patient (own_peer_id demo_manager)) demo_receiving demo_server_manager"
  "complete demo_libs (sent_towards demo_addresses (emitted demo_libs demo_sending demo_manager))
     (heard demo_libs (own_peer_id demo_manager) demo_receiving demo_server_manager)"
  by code_simp+

section \<open>Properties of the tunnel\<close>

subsection \<open>From device to device\<close>

text \<open>The life of a node: it starts, and its tasks run in some order while its surroundings behave.\<close>

definition lives :: "libs \<Rightarrow> lz4 \<Rightarrow> machine \<Rightarrow> settings_file \<Rightarrow> node \<Rightarrow> node_event list \<Rightarrow> node \<Rightarrow> bool" where
  "lives L z mc settings n evs n' \<longleftrightarrow> config mc = Some settings \<and> node_runs L z n evs n' \<and>
     (\<exists>ts t. main_start ts mc = Inr n \<and> 0 \<le> t \<and> (\<forall>j i. ts j i \<le> t) \<and> sane_run t (turns_of evs))"

text \<open>The network between node A, which ends as \<open>nA'\<close>, and node B, which gets \<open>evs\<close> from outside: whatever
  a remote of B reads that decodes to a packet in the name of A was put on the wire, to an address in
  \<open>D\<close>, by a remote of A of the same kind.\<close>

definition on_wire :: "node \<Rightarrow> dyn_remote \<Rightarrow> socket_addr set \<Rightarrow> byte_vec \<Rightarrow> bool" where
  "on_wire n q D w = list_ex (\<lambda>r. same_kind q (task_remote (rtask r)) \<and>
     list_ex (\<lambda>(w', d). w' = w \<and> d \<in> D) (wire (remote_socket (task_remote (rtask r))))) (node_remotes n)"

definition honest_network ::
    "libs \<Rightarrow> lz4 \<Rightarrow> u16 \<Rightarrow> socket_addr set \<Rightarrow> node \<Rightarrow> node_event list \<Rightarrow> node \<Rightarrow> bool" where
  "honest_network L z a D nA' evs nB' = list_all (\<lambda>ev. case ev of
     Remote_Got j (Some (Received w from_addr)) \<Rightarrow>
       (let q = task_remote (rtask (node_remotes nB' ! j))
        in case Option.bind (dyn_decode z q w) (bincode_deserialize L) of
             Some (Packet_Msg p) \<Rightarrow> peer_id p = a \<longrightarrow> on_wire nA' q D w
           | _ \<Rightarrow> True)
   | _ \<Rightarrow> True) evs"

lemma livesE:
  assumes "lives L z mc settings n evs n'"
  obtains t where "started n" and "node_runs L z n evs n'" and "node_at t (node_cm n)" and "sane_run t (turns_of evs)"
    and "own_peer_id (node_cm n) = settings_peer_id settings" and "packets_to_local (node_cm n) = []"
    and "\<And>a. new_to a (cm_peer_list (node_cm n))"
proof -
  obtain ts t where run: "node_runs L z n evs n'" and cfg: "config mc = Some settings" and st: "main_start ts mc = Inr n"
    and t: "0 \<le> t" "\<And>j i. ts j i \<le> t" and sane: "sane_run t (turns_of evs)"
    using assms by (auto simp: lives_def)
  obtain logger where cm: "node_cm n = connection_manager_new ts settings logger"
    using st cfg by (auto elim!: main_startE)
  have "started n" using st by (auto simp: started_def)
  moreover have "own_peer_id (node_cm n) = settings_peer_id settings" "packets_to_local (node_cm n) = []"
    by (simp_all add: cm connection_manager_new_def)
  ultimately show ?thesis
    using that [of t] run sane node_at_new [OF t] started_peer_new cm by simp
qed

text \<open>What a started node has emitted is what its connection manager has sent to the remotes.\<close>

lemma node_run_emitted:
  assumes "node_runs L z n evs n'" and "started n"
  shows "emitted L (turns_of evs) (node_cm n) = udp_output_broadcast_to_remotes (node_cm n')"
  using node_run_is_loop [OF assms(1)] started_balanced(3) [OF assms(2)] by (simp add: emitted_def)

lemma on_wire_sent:
  assumes "remotes_balanced z evs n" and "lossless z" and "on_wire n q D w" and "dyn_decode z q w = Some b"
  shows "b \<in> set (sent_towards D (udp_output_broadcast_to_remotes (node_cm n)))"
proof -
  obtain r d where r: "r \<in> set (node_remotes n)" "same_kind q (task_remote (rtask r))"
      "(w, d) \<in> set (wire (remote_socket (task_remote (rtask r))))" "d \<in> D"
    using assms(3) by (auto simp: on_wire_def list_ex_iff)
  have "(w, d) \<in> encoded z (task_remote (rtask r)) ` set (udp_output_broadcast_to_remotes (node_cm n))"
    using list_emb_set [OF remote_wire [OF assms(1) r(1)] r(3)] by auto
  then obtain out where out: "out \<in> set (udp_output_broadcast_to_remotes (node_cm n))"
      "w = dyn_encode z (task_remote (rtask r)) (packet_bytes out)" "d = destination out"
    by (auto simp: encoded_def)
  with dyn_decode_encode [OF assms(2) r(2)] assms(4) r(4) show ?thesis by (auto simp: sent_towards_def)
qed

lemma honest_carries:
  assumes "honest_network L z a D nA' evs nB'" and "lossless z"
    and "remotes_balanced z evsA nA'" and "balanced evs nB'" and "remotes_balanced z evs nB'"
  shows "carries L a (sent_towards D (udp_output_broadcast_to_remotes (node_cm nA'))) (turns_of evs)"
proof -
  have "raw_bytes raw \<in> set (sent_towards D (udp_output_broadcast_to_remotes (node_cm nA')))"
    if taken: "(e, Raw_Udp (Some raw)) \<in> set (turns_of evs)"
      and p: "bincode_deserialize L (raw_bytes raw) = Some (Packet_Msg p)" "peer_id p = a" for e raw p
  proof -
    have "raw \<in> set (datagrams_of (turns_of evs))" using taken in_datagrams_of by blast
    then have "raw \<in> set (received nB')"
      using assms(4) by (metis balanced_def in_set_conv_decomp mset_eq_setD set_append UnCI)
    then obtain j ev where ev: "ev \<in> set evs" "raw \<in> set (event_read z j (task_remote (rtask (node_remotes nB' ! j))) ev)"
      unfolding remotes_read [OF assms(5)] by (auto simp: datagrams_read_def)
    let ?q = "task_remote (rtask (node_remotes nB' ! j))"
    obtain w x where w: "ev = Remote_Got j (Some (Received w x))" "dyn_decode z ?q w = Some (raw_bytes raw)"
      using ev(2) by (cases "(z, j, ?q, ev)" rule: event_read.cases;
          cases "(z, ?q, Incoming (case ev of Remote_Got i item \<Rightarrow> item) True)" rule: manager_input.cases)
        (auto split: option.split_asm if_split_asm)
    with assms(1) ev(1) p have "on_wire nA' ?q D w"
      by (fastforce simp: honest_network_def list_all_iff Let_def)
    from on_wire_sent [OF assms(3,2) this w(2)] show ?thesis .
  qed
  then show ?thesis
    by (fastforce simp: carries_def list_all_iff split: cm_event.split option.split messages.split)
qed

lemma routed_frames: "subseq (routed_to L b turns m) (frames_of turns)"
proof (induction turns arbitrary: m)
  case (Cons turn turns)
  obtain e ev where turn: "turn = (e, ev)" by (cases turn)
  have "subseq (turn_routed L b e ev m) (frames_of [(e, ev)])"
    by (simp add: turn_routed_def frames_of_def split: cm_event.split option.split)
  from list_emb_append_mono [OF this Cons.IH] show ?case
    by (simp add: turn flip: contents_append)
qed simp

lemma routed_given:
  assumes "balanced evs n'"
  shows "subseq (routed_to L b (turns_of evs) m) (frames_given (\<not> is_layer3 n') evs)"
  using assms routed_frames [of L b "turns_of evs" m] by (auto simp: balanced_def intro: list_emb_append2)

lemma taken_for_device:
  assumes "reachable started (node_step L z) n" and "packets_to_local (node_cm n) = map f ds"
  obtains ps where "prefix ps ds" and "subseq (written (device (node_lm n))) (map f ps)"
    and "is_layer3 n \<longrightarrow> written (device (node_lm n)) = filter (\<lambda>p. p \<noteq> []) (map f ps)"
proof -
  obtain taken where taken: "packets_to_local (node_cm n) = taken @ to_local n @ cm_outbox n"
      "subseq (written (device (node_lm n))) taken"
      "is_layer3 n \<longrightarrow> written (device (node_lm n)) = filter (\<lambda>p. p \<noteq> []) taken"
    using nodes.reachable_inv [OF assms(1)] unfolding node_inv_def by blast
  have "map f (take (length taken) ds) = taken"
    using taken(1) unfolding assms(2) by (metis append_eq_conv_conj take_map)
  with that [of "take (length taken) ds"] taken(2,3) show ?thesis by (simp add: take_is_prefix)
qed

lemma prefix_filter_subseq: "prefix ps qs \<Longrightarrow> subseq (map f (filter P ps)) (map f (filter P qs))"
  by (auto simp: prefix_def)

text \<open>C1. From device to device: two nodes start and run, each with its tasks in any order; each may know
  the other from its settings or come to know it by a keepalive. The network between them
  loses, duplicates, delays and reorders at will what A's remotes put on the wire towards the addresses
  \<open>D\<close>, under which A reaches no peer but \<open>b\<close>; it makes up no packets in the name of A. Then the frames
  that node B has written to its device are, in order, the first packets \<open>ps\<close> that its connection manager
  delivered, up to empty ones and those too long for a capture device; and those of \<open>ps\<close> that came
  in the name of node A are a subsequence of the frames that A's device gave: none twice, none
  altered, none out of order. So if B delivers packets of A alone, what B writes to its device is a
  subsequence of what A's device gave.\<close>

theorem devices_in_order:
  assumes "serializes L" and "decodes L" and "lossless z"
    and "lives L z mcA sA nA evsA nA'" and "lives L z mcB sB nB evsB nB'"
    and "reaches_only D b (cm_peer_list (node_cm nA))" and "announced_only L D b (turns_of evsA)"
    and "honest_network L z (settings_peer_id sA) D nA' evsB nB'"
    and "length (frames_given (\<not> is_layer3 nA') evsA) < 2 ^ 64"
  shows "\<exists>ps. prefix ps (delivered L (turns_of evsB) (node_cm nB)) \<and>
    packets_to_local (node_cm nB') = map bytes (delivered L (turns_of evsB) (node_cm nB)) \<and>
    subseq (written (device (node_lm nB'))) (map bytes ps) \<and>
    (is_layer3 nB' \<longrightarrow> written (device (node_lm nB')) = filter (\<lambda>p. p \<noteq> []) (map bytes ps)) \<and>
    subseq (map bytes (filter (\<lambda>p. peer_id p = settings_peer_id sA) ps)) (frames_given (\<not> is_layer3 nA') evsA) \<and>
    (list_all (\<lambda>p. peer_id p = settings_peer_id sA) ps \<longrightarrow>
      subseq (written (device (node_lm nB'))) (frames_given (\<not> is_layer3 nA') evsA))"
proof -
  let ?a = "settings_peer_id sA" and ?given = "frames_given (\<not> is_layer3 nA') evsA"
  let ?routed = "routed_to L b (turns_of evsA) (node_cm nA)" and ?out = "delivered L (turns_of evsB) (node_cm nB)"
  obtain t where A: "started nA" "node_runs L z nA evsA nA'" "node_at t (node_cm nA)" "sane_run t (turns_of evsA)"
    "own_peer_id (node_cm nA) = ?a" and newA: "\<And>q. new_to q (cm_peer_list (node_cm nA))"
    using assms(4) by (elim livesE) blast
  obtain u where B: "started nB" "node_runs L z nB evsB nB'" "node_at u (node_cm nB)" "sane_run u (turns_of evsB)"
    and newB: "\<And>q. new_to q (cm_peer_list (node_cm nB))" and empty: "packets_to_local (node_cm nB) = []"
    using assms(5) by (elim livesE) blast
  note balA = node_run_balanced [OF A(2,1)] and balB = node_run_balanced [OF B(2,1)]
  have given: "subseq ?routed ?given" using balA(1) by (rule routed_given)
  then have few: "length ?routed < 2 ^ 64" using list_emb_length [OF given] assms(9) by linarith
  have "carries L ?a (sent_towards D (udp_output_broadcast_to_remotes (node_cm nA'))) (turns_of evsB)"
    using assms(8,3) balA(2) balB by (rule honest_carries)
  moreover have "numbers L ?a ?routed (sent_towards D (udp_output_broadcast_to_remotes (node_cm nA')))"
    using sender_numbers [OF assms(1) A(3,4) newA assms(6,7)] unfolding A(5) node_run_emitted [OF A(2,1)] .
  ultimately have "subseq (map bytes (filter (\<lambda>p. peer_id p = ?a) ?out)) ?routed"
    using tunnel_subseq [OF assms(1,2) B(3,4) newB] few by blast
  then have order: "subseq (map bytes (filter (\<lambda>p. peer_id p = ?a) ?out)) ?given"
    using given by (rule subseq_order.trans)
  have out: "packets_to_local (node_cm nB') = map bytes ?out"
    using run_ends [OF assms(1) B(3,4)] node_run_is_loop [OF B(2)] empty by simp
  obtain ps where ps: "prefix ps ?out" "subseq (written (device (node_lm nB'))) (map bytes ps)"
    "is_layer3 nB' \<longrightarrow> written (device (node_lm nB')) = filter (\<lambda>p. p \<noteq> []) (map bytes ps)"
    using node_runs_reachable [OF B(2,1)] out by (rule taken_for_device)
  have first: "subseq (map bytes (filter (\<lambda>p. peer_id p = ?a) ps)) ?given"
    using prefix_filter_subseq [OF ps(1)] order by (rule subseq_order.trans)
  moreover have "subseq (written (device (node_lm nB'))) ?given" if "list_all (\<lambda>p. peer_id p = ?a) ps"
  proof -
    have "filter (\<lambda>p. peer_id p = ?a) ps = ps" using that by (simp add: filter_id_conv list_all_iff)
    with first ps(2) show ?thesis using subseq_order.trans by metis
  qed
  ultimately show ?thesis using ps out by blast
qed

text \<open>In the example the datagrams that B reads are on the wire of A's only remote.\<close>

definition demo_server_machine :: machine where
  "demo_server_machine = demo_machine\<lparr>args_debug := False, config := Some demo_server\<rparr>"

definition demo_server_node :: node where
  "demo_server_node = projr (main_start (\<lambda>_ _. 0) demo_server_machine)"

definition demo_receiver_jobs :: "job list" where
  "demo_receiver_jobs =
     receive_jobs 4 (Keepalive_Msg \<lparr>ka_peer_id = 1, ka_tun_ip = Some 0x0A000001\<rparr>) @
     [Cm_Turn (demo_env 9000000) Sequencer_Tick] @
     receive_jobs 9000001 (Packet_Msg \<lparr>seq = 1, peer_id = 1, bytes = [2, 8]\<rparr>) @
     receive_jobs 9000002 (Packet_Msg \<lparr>seq = 0, peer_id = 1, bytes = [2, 9]\<rparr>) @ [Cm_Send, Cm_Send] @
     receive_jobs 9000003 (Packet_Msg \<lparr>seq = 1, peer_id = 1, bytes = [2, 8]\<rparr>) @
     [Lm_Write [] (Some True), Lm_Write [] (Some True), Cm_Turn (demo_env 9000004) Sequencer_Tick]"

definition demo_receiver_events :: "node_event list" where
  "demo_receiver_events = concat (map job_events demo_receiver_jobs)"

abbreviation demo_server_node' :: node where
  "demo_server_node' \<equiv> node_after demo_libs demo_lz4 demo_receiver_jobs demo_server_node"

lemma demo_turns_of: "turns_of demo_sender_events = demo_sending" "turns_of demo_receiver_events = demo_receiving"
  by (simp_all add: turns_of_def demo_sender_events_def demo_sender_jobs_def demo_receiver_events_def demo_receiver_jobs_def
      receive_jobs_def frame_jobs_def Let_def demo_turns_def demo_sent_events_def demo_received_events_def eval_nat_numeral)

lemma demo_server_starts: "main_start (\<lambda>_ _. 0) demo_server_machine = Inr demo_server_node"
proof -
  have "case main_start (\<lambda>_ _. 0) demo_server_machine of Inl _ \<Rightarrow> False | Inr _ \<Rightarrow> True" by code_simp
  then show ?thesis unfolding demo_server_node_def by (simp split: sum.split_asm)
qed

lemma demo_server_runs:
  "node_runs demo_libs demo_lz4 demo_server_node demo_receiver_events demo_server_node'"
  unfolding demo_receiver_events_def by (rule node_exec_runs_events) code_simp

lemma demo_lives:
  "lives demo_libs demo_lz4 demo_machine (demo_client\<lparr>remotes := [UDP ''eth0'' None 10000 None]\<rparr>)
     demo_node demo_sender_events demo_sender_node'"
  "lives demo_libs demo_lz4 demo_server_machine demo_server demo_server_node demo_receiver_events demo_server_node'"
  unfolding lives_def demo_turns_of
  using demo_sender_runs demo_server_runs demo_node_starts demo_server_starts sane_demo
  by (auto simp: demo_machine_def demo_server_machine_def intro!: exI [of _ "\<lambda>_ _. 0"] exI [of _ 0])

lemma demo_devices:
  "honest_network demo_libs demo_lz4 1 demo_addresses demo_sender_node' demo_receiver_events demo_server_node'"
  "frames_given (\<not> is_layer3 demo_sender_node') demo_sender_events = [[2, 9], [2, 8]]"
  "written (device (node_lm demo_server_node')) = [[2, 9], [2, 8]]"
  by code_simp+

lemma demo_node_reaches: "reaches_only D 2 (cm_peer_list (node_cm demo_node))"
proof (rule reaches_only_single)
  show "get_peer_ids unat (cm_peer_list (node_cm demo_node)) = [2]" by code_simp
qed

theorem devices_in_order_witness:
  "\<exists>ps. prefix ps (delivered demo_libs demo_receiving (node_cm demo_server_node)) \<and>
     subseq [[2, 9], [2, 8]] (map bytes ps) \<and> subseq (map bytes (filter (\<lambda>p. peer_id p = 1) ps)) [[2, 9], [2, 8]]"
proof -
  let ?sA = "demo_client\<lparr>remotes := [UDP ''eth0'' None 10000 None]\<rparr>"
  have id: "settings_peer_id ?sA = 1" by (simp add: demo_client_def)
  have few: "length (frames_given (\<not> is_layer3 demo_sender_node') demo_sender_events) < 2 ^ 64"
    by (simp add: demo_devices)
  from devices_in_order [OF serializes_demo decodes_demo lossless_demo demo_lives demo_node_reaches,
      unfolded id demo_turns_of, OF demo_network(1) demo_devices(1) few]
  show ?thesis unfolding demo_devices by blast
qed

subsection \<open>Between the managers\<close>

text \<open>C2. End to end, in order and without duplicates: node A takes packets from its local device
  while anything else happens to it, node B receives datagrams from any number of connections
  while anything else happens to it, and the network loses, duplicates, delays and reorders at will the
  datagrams that A's connection manager emitted to the addresses \<open>D\<close>, under which A reaches no peer but \<open>b\<close>.
  Each node may know the other from the start or come to know it by a keepalive. Then neither node
  panics, and what B hands to its local device in the name of A is a subsequence of what A
  routed to \<open>b\<close>: no packet twice, none altered, none out of order.\<close>

theorem tunnel_in_order:
  assumes "serializes L" and "decodes L"
    and "node_at t mA" and "sane_run t turnsA" and "new_to b (cm_peer_list mA)"
    and "reaches_only D b (cm_peer_list mA)" and "announced_only L D b turnsA"
    and "node_at u mB" and "sane_run u turnsB" and "new_to (own_peer_id mA) (cm_peer_list mB)"
    and "carries L (own_peer_id mA) (sent_towards D (emitted L turnsA mA)) turnsB"
    and "length (routed_to L b turnsA mA) < 2 ^ 64"
  shows "\<exists>mA' mB'. run_loop L turnsA mA = Running mA' \<and> run_loop L turnsB mB = Running mB' \<and>
    udp_output_broadcast_to_remotes mA' = udp_output_broadcast_to_remotes mA @ emitted L turnsA mA \<and>
    packets_to_local mB' = packets_to_local mB @ map bytes (delivered L turnsB mB) \<and>
    subseq (map bytes (filter (\<lambda>p. peer_id p = own_peer_id mA) (delivered L turnsB mB)))
      (routed_to L b turnsA mA)"
  using run_ends [OF assms(1,3,4)] run_ends [OF assms(1,8,9)]
    tunnel_subseq [OF assms(1,2,8-11) sender_numbers [OF assms(1,3-7)] assms(12)] by auto

theorem tunnel_in_order_witness:
  "subseq (map bytes (filter (\<lambda>p. peer_id p = own_peer_id demo_manager)
       (delivered demo_libs demo_receiving demo_server_manager))) [[2, 9], [2, 8]]"
proof -
  have "length (routed_to demo_libs 2 demo_sending demo_manager) < 2 ^ 64" by (simp add: demo_network)
  from tunnel_in_order [OF serializes_demo decodes_demo node_demo(1) sane_demo(1) new_demo(1) demo_reaches
      demo_network(1) node_demo(2) sane_demo(2) new_demo(2) demo_network(2) this]
  show ?thesis by (auto simp: demo_network)
qed

text \<open>C3. End to end, complete: if in addition A has a connection to \<open>b\<close> in \<open>D\<close> whenever it routes a packet to it,
  B hears at least one copy of every packet emitted to \<open>D\<close>, over whichever connection, and B's deadline does
  not run out while packets of A wait in the queue (it may while none do), then B hands
  exactly what A routed to \<open>b\<close> to its local device in the name of A, in A's order.\<close>

theorem tunnel_exact:
  assumes "serializes L" and "decodes L"
    and "node_at t mA" and "sane_run t turnsA" and "new_to b (cm_peer_list mA)"
    and "reaches_only D b (cm_peer_list mA)" and "announced_only L D b turnsA"
    and "node_at u mB" and "sane_run u turnsB" and "new_to (own_peer_id mA) (cm_peer_list mB)"
    and "carries L (own_peer_id mA) (sent_towards D (emitted L turnsA mA)) turnsB"
    and "length (routed_to L b turnsA mA) < 2 ^ 64" and "length turnsB < 2 ^ 64"
    and "always L (connected L D b) turnsA mA"
    and "complete L (sent_towards D (emitted L turnsA mA)) (heard L (own_peer_id mA) turnsB mB)"
    and "always L (patient (own_peer_id mA)) turnsB mB"
  shows "\<exists>mA' mB'. run_loop L turnsA mA = Running mA' \<and> run_loop L turnsB mB = Running mB' \<and>
    udp_output_broadcast_to_remotes mA' = udp_output_broadcast_to_remotes mA @ emitted L turnsA mA \<and>
    packets_to_local mB' = packets_to_local mB @ map bytes (delivered L turnsB mB) \<and>
    map bytes (filter (\<lambda>p. peer_id p = own_peer_id mA) (delivered L turnsB mB)) = routed_to L b turnsA mA"
proof -
  have "carrying L (own_peer_id mA) 0 (routed_to L b turnsA mA) n \<in> set (sent_towards D (emitted L turnsA mA))"
    if "n < length (routed_to L b turnsA mA)" for n
    using sender_complete [OF assms(1,3,4,14) that] count_to_new [OF assms(5)] by (force simp: sent_towards_def image_iff)
  from tunnel_complete [OF assms(1,2,8-11) sender_numbers [OF assms(1,3-7)] assms(12,16,13,15) this] show ?thesis
    using run_ends [OF assms(1,3,4)] run_ends [OF assms(1,8,9)] by auto
qed

theorem tunnel_exact_witness:
  "map bytes (filter (\<lambda>p. peer_id p = own_peer_id demo_manager)
     (delivered demo_libs demo_receiving demo_server_manager)) = [[2, 9], [2, 8]]"
proof -
  have few: "length (routed_to demo_libs 2 demo_sending demo_manager) < 2 ^ 64" "length demo_receiving < 2 ^ 64"
    by (simp_all only: demo_network) (simp_all add: demo_turns_def demo_received_events_def)
  from tunnel_exact [OF serializes_demo decodes_demo node_demo(1) sane_demo(1) new_demo(1) demo_reaches
      demo_network(1) node_demo(2) sane_demo(2) new_demo(2) demo_network(2) few demo_network_complete(1,3,2)]
  show ?thesis by (auto simp: demo_network)
qed

end
